theory Spec2Isabelle
  imports Complex_Main "HOL-Library.AList"
begin

section \<open>Configuration constants of blackjack_engine.py\<close>

definition BLACKJACK_PAYOUT :: real where
  "BLACKJACK_PAYOUT = 3 / 2"

definition DEALER_HITS_SOFT_17 :: bool where
  "DEALER_HITS_SOFT_17 = False"

definition MAX_SPLITS :: nat where
  "MAX_SPLITS = 3"

section \<open>Cards and the shoe\<close>

text \<open>
  A card is a Python int (2..10, 11 for an Ace); the shoe is a Python list of cards.
  \<^verbatim>\<open>draw_card\<close> raises RuntimeError on an empty shoe and otherwise pops the LAST element
  of the list. The mutation of the shoe is made explicit: the function returns the card
  together with the remaining shoe.
\<close>

datatype error = ShoeEmpty | IndexError

definition draw_card :: "int list \<Rightarrow> error + (int \<times> int list)" where
  "draw_card sh = (if sh = [] then Inl ShoeEmpty else Inr (last sh, butlast sh))"

section \<open>Hand evaluation\<close>

text \<open>
  The while loop of \<^verbatim>\<open>hand_value\<close>:
  \<^verbatim>\<open>while total > 21 and aces_as_11 > 0: total -= 10; aces_as_11 -= 1\<close>
\<close>

fun hand_value_loop :: "int \<Rightarrow> nat \<Rightarrow> int \<times> nat" where
  "hand_value_loop tot aces_as_11 =
     (if tot > 21 \<and> aces_as_11 > 0
      then hand_value_loop (tot - 10) (aces_as_11 - 1)
      else (tot, aces_as_11))"

declare hand_value_loop.simps [simp del]

definition hand_value :: "int list \<Rightarrow> int \<times> bool" where
  "hand_value hand =
     (let tot = sum_list hand;
          aces = count_list hand 11;
          (tot', aces_as_11) = hand_value_loop tot aces
      in (tot', aces_as_11 > 0 \<and> tot' \<le> 21))"

definition is_blackjack :: "int list \<Rightarrow> bool" where
  "is_blackjack hand =
     (if length hand \<noteq> 2 then False else fst (hand_value hand) = 21)"

definition can_split :: "int list \<Rightarrow> bool" where
  "can_split hand = (length hand = 2 \<and> hand ! 0 = hand ! 1)"


section \<open>Data structures\<close>

text \<open>
  The dataclass \<^verbatim>\<open>HandState\<close>. The field \<^verbatim>\<open>is_blackjack\<close> is called
  \<open>is_blackjack_flag\<close> here, since the function \<^verbatim>\<open>is_blackjack\<close> keeps the name.
  The bet and the result are Python floats, modelled as reals. The dict \<^verbatim>\<open>meta\<close> is an
  association list; the engine only ever stores the key "from_split" with value True.
\<close>

record HandState =
  cards :: "int list"
  bet :: real
  is_finished :: bool
  is_busted :: bool
  is_blackjack_flag :: bool
  is_split_ace :: bool
  result :: "real option"
  meta :: "(string \<times> bool) list"

text \<open>\<^verbatim>\<open>d.get(key, default)\<close> on such a dict.\<close>

definition meta_get :: "(string \<times> bool) list \<Rightarrow> string \<Rightarrow> bool \<Rightarrow> bool" where
  "meta_get m k d = (case map_of m k of None \<Rightarrow> d | Some v \<Rightarrow> v)"

text \<open>The context dict handed to the policy at each decision, and one entry of the step log.\<close>

record DecisionContext =
  player_total :: int
  player_soft :: bool
  ctx_can_split :: bool
  can_double :: bool
  ctx_hand_index :: nat
  num_hands :: nat

record LogStep =
  step_hand_index :: nat
  step_cards :: "int list"
  step_dealer_up :: int
  step_action :: string
  step_ctx :: DecisionContext

text \<open>
  The dataclass \<^verbatim>\<open>RoundState\<close>. \<^verbatim>\<open>logs\<close> is \<^verbatim>\<open>{"steps": [...]}\<close> when logging was
  requested (\<open>Some steps\<close>) and \<^verbatim>\<open>{}\<close> otherwise (\<open>None\<close>).
\<close>

record RoundState =
  shoe :: "int list"
  player_hands :: "HandState list"
  dealer_cards :: "int list"
  initial_blackjack :: bool
  logs :: "LogStep list option"

section \<open>Dealer play\<close>

text \<open>
  \<^verbatim>\<open>play_dealer\<close> reads the module constant \<^verbatim>\<open>DEALER_HITS_SOFT_17\<close>; the loop is
  modelled with the flag as a parameter, and \<open>play_dealer\<close> instantiates it with the
  constant. The dealer's list is appended to in place; the model returns the remaining
  shoe and the dealer's cards.
\<close>

function play_dealer_with :: "bool \<Rightarrow> int list \<Rightarrow> int list \<Rightarrow> error + (int list \<times> int list)" where
  "play_dealer_with hits_soft_17 sh dcards =
     (let (tot, soft) = hand_value dcards in
      if tot > 21 then Inr (sh, dcards)
      else if \<not> hits_soft_17 \<and> tot \<ge> 17 then Inr (sh, dcards)
      else if hits_soft_17 \<and> tot > 17 then Inr (sh, dcards)
      else if hits_soft_17 \<and> tot = 17 \<and> \<not> soft then Inr (sh, dcards)
      else (case draw_card sh of
              Inl e \<Rightarrow> Inl e
            | Inr (c, sh') \<Rightarrow> play_dealer_with hits_soft_17 sh' (dcards @ [c])))"
  by pat_completeness auto
termination
  by (relation "measure (\<lambda>(h, sh, dcards). length sh)")
     (auto simp: draw_card_def split: if_splits)

declare play_dealer_with.simps [simp del]

definition play_dealer :: "int list \<Rightarrow> int list \<Rightarrow> error + (int list \<times> int list)" where
  "play_dealer sh dcards = play_dealer_with DEALER_HITS_SOFT_17 sh dcards"

section \<open>Player actions\<close>

definition apply_action_hit :: "int list \<Rightarrow> HandState \<Rightarrow> error + (int list \<times> HandState)" where
  "apply_action_hit sh hand =
     (case draw_card sh of
        Inl e \<Rightarrow> Inl e
      | Inr (c, sh') \<Rightarrow>
          (let hand1 = hand\<lparr>cards := cards hand @ [c]\<rparr>;
               (tot, soft) = hand_value (cards hand1)
           in if tot > 21
              then Inr (sh', hand1\<lparr>is_busted := True, is_finished := True\<rparr>)
              else Inr (sh', hand1)))"

definition apply_action_stand :: "HandState \<Rightarrow> HandState" where
  "apply_action_stand hand = hand\<lparr>is_finished := True\<rparr>"

definition apply_action_double :: "int list \<Rightarrow> HandState \<Rightarrow> error + (int list \<times> HandState)" where
  "apply_action_double sh hand =
     (if length (cards hand) \<noteq> 2 then apply_action_hit sh hand
      else (let hand1 = hand\<lparr>bet := bet hand * 2\<rparr> in
            (case draw_card sh of
               Inl e \<Rightarrow> Inl e
             | Inr (c, sh') \<Rightarrow>
                 (let hand2 = hand1\<lparr>cards := cards hand1 @ [c]\<rparr>;
                      (tot, soft) = hand_value (cards hand2);
                      hand3 = (if tot > 21 then hand2\<lparr>is_busted := True\<rparr> else hand2)
                  in Inr (sh', hand3\<lparr>is_finished := True\<rparr>)))))"

text \<open>\<^verbatim>\<open>list.insert(i, x)\<close>: beyond the end it appends.\<close>

definition list_insert :: "nat \<Rightarrow> 'a \<Rightarrow> 'a list \<Rightarrow> 'a list" where
  "list_insert i x xs = take i xs @ [x] @ drop i xs"

text \<open>
  \<^verbatim>\<open>apply_action_split(shoe, round_state, hand_index)\<close> draws from its shoe argument and
  mutates the hand list of the round state. The model returns the remaining shoe and the
  round state with the new hand list; an index outside the hand list is Python's
  IndexError.
\<close>

definition apply_action_split :: "int list \<Rightarrow> RoundState \<Rightarrow> nat \<Rightarrow> error + (int list \<times> RoundState)" where
  "apply_action_split sh round_state hand_index =
     (if hand_index \<ge> length (player_hands round_state) then Inl IndexError
      else
       (let hand = player_hands round_state ! hand_index in
        if \<not> can_split (cards hand) then Inr (sh, round_state)
        else
         (let existing_splits =
                length (filter (\<lambda>h. meta_get (meta h) ''from_split'' False)
                          (player_hands round_state))
          in if existing_splits \<ge> MAX_SPLITS then Inr (sh, round_state)
             else
              (let card = cards hand ! 0 in
               (case draw_card sh of
                 Inl e \<Rightarrow> Inl e
               | Inr (c1, sh1) \<Rightarrow>
                  (let hand1 = hand\<lparr>cards := [card, c1]\<rparr>;
                       hand2 = hand1\<lparr>is_blackjack_flag := is_blackjack (cards hand1)\<rparr>;
                       hand3 = hand2\<lparr>meta := AList.update ''from_split'' True (meta hand2)\<rparr>
                   in (case draw_card sh1 of
                        Inl e \<Rightarrow> Inl e
                      | Inr (c2, sh2) \<Rightarrow>
                         (let new_hand_cards = [card, c2];
                              new_hand = \<lparr>cards = new_hand_cards, bet = bet hand3,
                                          is_finished = False, is_busted = False,
                                          is_blackjack_flag = is_blackjack new_hand_cards,
                                          is_split_ace = False, result = None,
                                          meta = [(''from_split'', True)]\<rparr>;
                              hand4 = (if card = 11
                                       then hand3\<lparr>is_split_ace := True, is_finished := True\<rparr>
                                       else hand3);
                              new_hand' = (if card = 11
                                           then new_hand\<lparr>is_split_ace := True, is_finished := True\<rparr>
                                           else new_hand)
                          in Inr (sh2, round_state\<lparr>player_hands :=
                                    list_insert (hand_index + 1) new_hand'
                                      ((player_hands round_state)[hand_index := hand4])\<rparr>)))))))))"

section \<open>Settlement\<close>

text \<open>
  \<^verbatim>\<open>settle_hand_vs_dealer\<close> stores the result in the hand and returns it; the model
  returns the hand with its result together with the returned value.
\<close>

definition settle_hand_vs_dealer :: "HandState \<Rightarrow> int list \<Rightarrow> HandState \<times> real" where
  "settle_hand_vs_dealer hand dcards =
     (case result hand of
        Some r \<Rightarrow> (hand, r)
      | None \<Rightarrow>
         if is_busted hand then (hand\<lparr>result := Some (- bet hand)\<rparr>, - bet hand)
         else
          (let (ptot, psoft) = hand_value (cards hand);
               (dtot, dsoft) = hand_value dcards
           in if dtot > 21 then (hand\<lparr>result := Some (bet hand)\<rparr>, bet hand)
              else if is_blackjack_flag hand \<and> \<not> (length dcards = 2 \<and> dtot = 21)
              then (hand\<lparr>result := Some (bet hand * BLACKJACK_PAYOUT)\<rparr>,
                    bet hand * BLACKJACK_PAYOUT)
              else if dtot > ptot then (hand\<lparr>result := Some (- bet hand)\<rparr>, - bet hand)
              else if dtot < ptot then (hand\<lparr>result := Some (bet hand)\<rparr>, bet hand)
              else (hand\<lparr>result := Some 0\<rparr>, 0)))"

section \<open>The round\<close>

text \<open>
  The policy is the injected callback \<^verbatim>\<open>policy(player_cards, dealer_upcard, context)\<close>,
  modelled as a pure total function returning the action string. \<^verbatim>\<open>.upper()\<close> maps
  the letters a..z to A..Z, and the model leaves every other character as it is; the
  engine compares the outcome with the one-letter codes "H", "S", "D", "P", "R" only, and
  every other string takes the final else branch.
\<close>

type_synonym PolicyFunc = "int list \<Rightarrow> int \<Rightarrow> DecisionContext \<Rightarrow> string"

definition upper_char :: "char \<Rightarrow> char" where
  "upper_char c =
     (let n = (of_char c :: nat)
      in if 97 \<le> n \<and> n \<le> 122 then char_of (n - 32) else c)"

definition upper :: "string \<Rightarrow> string" where
  "upper s = map upper_char s"

text \<open>\<^verbatim>\<open>hand\<close> is the object stored at \<^verbatim>\<open>hand_index\<close>: mutating it is an update of the list.\<close>

definition set_hand :: "RoundState \<Rightarrow> nat \<Rightarrow> HandState \<Rightarrow> RoundState" where
  "set_hand st hand_index hand =
     st\<lparr>player_hands := (player_hands st)[hand_index := hand]\<rparr>"

text \<open>
  One pass through the body of the inner loop \<^verbatim>\<open>while not hand.is_finished\<close> of
  \<^verbatim>\<open>play_round\<close>, for the hand at \<^verbatim>\<open>hand_index\<close>. The boolean of the outcome says
  whether the pass ended in \<^verbatim>\<open>break\<close>. The shoe of \<^verbatim>\<open>play_round\<close> and \<^verbatim>\<open>state.shoe\<close>
  are the same list object, so the field \<open>shoe\<close> is updated after every draw. With
  \<^verbatim>\<open>log\<close> set, \<^verbatim>\<open>state.logs\<close> holds the key "steps" from the construction of the state.
\<close>

definition hand_step :: "PolicyFunc \<Rightarrow> int \<Rightarrow> bool \<Rightarrow> nat \<Rightarrow> RoundState \<Rightarrow> error + (bool \<times> RoundState)" where
  "hand_step policy dealer_up lg hand_index st =
     (let hand = player_hands st ! hand_index;
          (tot, soft) = hand_value (cards hand)
      in if tot > 21
         then Inr (True, set_hand st hand_index (hand\<lparr>is_busted := True, is_finished := True\<rparr>))
         else
          (let ctx = \<lparr>player_total = tot, player_soft = soft,
                      ctx_can_split = can_split (cards hand),
                      can_double = (length (cards hand) = 2),
                      ctx_hand_index = hand_index,
                      num_hands = length (player_hands st)\<rparr>;
               action = upper (policy (cards hand) dealer_up ctx);
               st1 = (if lg
                      then st\<lparr>logs := map_option
                             (\<lambda>steps. steps @
                                [\<lparr>step_hand_index = hand_index, step_cards = cards hand,
                                  step_dealer_up = dealer_up, step_action = action,
                                  step_ctx = ctx\<rparr>]) (logs st)\<rparr>
                      else st);
               hit = (case apply_action_hit (shoe st1) hand of
                        Inl e \<Rightarrow> Inl e
                      | Inr (sh', hand') \<Rightarrow>
                          Inr (False, set_hand (st1\<lparr>shoe := sh'\<rparr>) hand_index hand'));
               stand = Inr (False, set_hand st1 hand_index (apply_action_stand hand))
           in if action = ''H'' then
                (if is_split_ace hand
                 then Inr (False, set_hand st1 hand_index (hand\<lparr>is_finished := True\<rparr>))
                 else hit)
              else if action = ''S'' then stand
              else if action = ''D'' then
                (if length (cards hand) = 2
                 then (case apply_action_double (shoe st1) hand of
                         Inl e \<Rightarrow> Inl e
                       | Inr (sh', hand') \<Rightarrow>
                           Inr (False, set_hand (st1\<lparr>shoe := sh'\<rparr>) hand_index hand'))
                 else hit)
              else if action = ''P'' then
                (if can_split (cards hand)
                 then (case apply_action_split (shoe st1) st1 hand_index of
                         Inl e \<Rightarrow> Inl e
                       | Inr (sh', st2) \<Rightarrow> Inr (True, st2\<lparr>shoe := sh'\<rparr>))
                 else hit)
              else if action = ''R'' then stand
              else stand))"

lemma hand_step_continue:
  assumes "hand_step policy dealer_up lg i st = Inr (False, st')"
      and "i < length (player_hands st)"
  shows "length (player_hands st') = length (player_hands st) \<and>
         (length (shoe st') < length (shoe st) \<or>
          (shoe st' = shoe st \<and> is_finished (player_hands st' ! i)))"
  using assms
  by (auto simp: hand_step_def set_hand_def apply_action_hit_def apply_action_double_def
        apply_action_stand_def draw_card_def Let_def
      split: prod.splits if_splits sum.splits)

text \<open>
  The inner loop \<^verbatim>\<open>while not hand.is_finished\<close>. The element access
  \<^verbatim>\<open>state.player_hands[hand_index]\<close> is Python's checked indexing.
\<close>

function hand_loop :: "PolicyFunc \<Rightarrow> int \<Rightarrow> bool \<Rightarrow> nat \<Rightarrow> RoundState \<Rightarrow> error + RoundState" where
  "hand_loop policy dealer_up lg hand_index st =
     (if hand_index \<ge> length (player_hands st) then Inl IndexError
      else if is_finished (player_hands st ! hand_index) then Inr st
      else (case hand_step policy dealer_up lg hand_index st of
              Inl e \<Rightarrow> Inl e
            | Inr (brk, st') \<Rightarrow>
                if brk then Inr st' else hand_loop policy dealer_up lg hand_index st'))"
  by pat_completeness auto
termination
proof (relation "measure (\<lambda>(policy, dealer_up, lg, i, st).
          2 * length (shoe st) + (if is_finished (player_hands st ! i) then 0 else 1))",
       goal_cases)
  case 1
  show ?case by simp
next
  case (2 policy dealer_up lg i st x2 brk st')
  then have "hand_step policy dealer_up lg i st = Inr (False, st')"
    and "i < length (player_hands st)"
    by auto
  from hand_step_continue [OF this] 2 show ?case
    by auto
qed

declare hand_loop.simps [simp del]

lemma draw_card_length:
  "draw_card sh = Inr (c, sh') \<Longrightarrow> length sh = Suc (length sh')"
  by (auto simp: draw_card_def split: if_splits)

lemma apply_action_split_sizes:
  assumes "apply_action_split sh st i = Inr (sh', st')"
  shows "(sh' = sh \<and> st' = st) \<or>
         (length sh' + 2 = length sh \<and>
          length (player_hands st') = length (player_hands st) + 1)"
  using assms
  by (auto simp: apply_action_split_def list_insert_def Let_def
      split: if_splits sum.splits prod.splits dest!: draw_card_length)

lemma hand_step_sizes:
  assumes "hand_step policy dealer_up lg i st = Inr (brk, st')"
      and "i < length (player_hands st)"
  shows "length (player_hands st) \<le> length (player_hands st') \<and>
         length (shoe st') + length (player_hands st')
           \<le> length (shoe st) + length (player_hands st)"
proof (cases brk)
  case False
  with assms hand_step_continue [of policy dealer_up lg i st st'] show ?thesis
    by auto
next
  case True
  with assms show ?thesis
    by (auto simp: hand_step_def set_hand_def Let_def
        split: prod.splits if_splits sum.splits
        dest!: apply_action_split_sizes)
qed

lemma hand_loop_sizes:
  "hand_loop policy dealer_up lg i st = Inr st' \<Longrightarrow>
   length (player_hands st) \<le> length (player_hands st') \<and>
   length (shoe st') + length (player_hands st')
     \<le> length (shoe st) + length (player_hands st)"
proof (induction policy dealer_up lg i st rule: hand_loop.induct)
  case (1 policy dealer_up lg i st)
  show ?case
  proof (cases "i \<ge> length (player_hands st) \<or> is_finished (player_hands st ! i)")
    case True
    with "1.prems" show ?thesis
      by (auto simp: hand_loop.simps [of policy dealer_up lg i st] split: if_splits)
  next
    case False
    then have inb: "i < length (player_hands st)" and nf: "\<not> is_finished (player_hands st ! i)"
      by auto
    from "1.prems" inb nf obtain brk st1 where
      step: "hand_step policy dealer_up lg i st = Inr (brk, st1)" and
      rest: "(if brk then Inr st1 else hand_loop policy dealer_up lg i st1) = Inr st'"
      by (auto simp: hand_loop.simps [of policy dealer_up lg i st] split: sum.splits)
    note sz = hand_step_sizes [OF step inb]
    show ?thesis
    proof (cases brk)
      case True
      with rest sz show ?thesis by simp
    next
      case False
      with rest have "hand_loop policy dealer_up lg i st1 = Inr st'" by simp
      from "1.IH" [OF _ _ step refl False this] inb nf sz show ?thesis
        by auto
    qed
  qed
qed

text \<open>
  The outer loop \<^verbatim>\<open>while hand_index < len(state.player_hands)\<close>: a finished hand is
  skipped; otherwise the inner loop runs, and \<^verbatim>\<open>hand_index += 1\<close> follows it, whether
  the inner loop ended by its condition or by \<^verbatim>\<open>break\<close>.
\<close>

function round_loop :: "PolicyFunc \<Rightarrow> int \<Rightarrow> bool \<Rightarrow> nat \<Rightarrow> RoundState \<Rightarrow> error + RoundState" where
  "round_loop policy dealer_up lg hand_index st =
     (if hand_index < length (player_hands st) then
        (if is_finished (player_hands st ! hand_index)
         then round_loop policy dealer_up lg (hand_index + 1) st
         else (case hand_loop policy dealer_up lg hand_index st of
                 Inl e \<Rightarrow> Inl e
               | Inr st' \<Rightarrow> round_loop policy dealer_up lg (hand_index + 1) st'))
      else Inr st)"
  by pat_completeness auto
termination
proof (relation "measure (\<lambda>(policy, dealer_up, lg, i, st).
          length (shoe st) + length (player_hands st) - i)", goal_cases)
  case 1
  show ?case by simp
next
  case (2 policy dealer_up lg i st)
  then show ?case by simp
next
  case (3 policy dealer_up lg i st st')
  with hand_loop_sizes [of policy dealer_up lg i st st'] show ?case
    by auto
qed

declare round_loop.simps [simp del]

text \<open>\<^verbatim>\<open>play_round(shoe, policy, base_bet, log)\<close>.\<close>

definition play_round :: "int list \<Rightarrow> PolicyFunc \<Rightarrow> real \<Rightarrow> bool \<Rightarrow> error + RoundState" where
  "play_round sh policy base_bet lg =
     (case draw_card sh of Inl e \<Rightarrow> Inl e | Inr (p1, sh1) \<Rightarrow>
      (case draw_card sh1 of Inl e \<Rightarrow> Inl e | Inr (p2, sh2) \<Rightarrow>
      (case draw_card sh2 of Inl e \<Rightarrow> Inl e | Inr (d1, sh3) \<Rightarrow>
      (case draw_card sh3 of Inl e \<Rightarrow> Inl e | Inr (d2, sh4) \<Rightarrow>
       (let player_cards = [p1, p2];
            dcards = [d1, d2];
            player_hand = \<lparr>cards = player_cards, bet = base_bet,
                           is_finished = False, is_busted = False,
                           is_blackjack_flag = is_blackjack player_cards,
                           is_split_ace = False, result = None, meta = []\<rparr>;
            state = \<lparr>shoe = sh4, player_hands = [player_hand], dealer_cards = dcards,
                     initial_blackjack = is_blackjack_flag player_hand,
                     logs = (if lg then Some [] else None)\<rparr>;
            dealer_up = dcards ! 0;
            dealer_has_bj = is_blackjack dcards
        in if is_blackjack_flag player_hand \<or> dealer_has_bj then
             (let r = (if is_blackjack_flag player_hand \<and> \<not> dealer_has_bj
                       then base_bet * BLACKJACK_PAYOUT
                       else if dealer_has_bj \<and> \<not> is_blackjack_flag player_hand
                       then - base_bet
                       else 0)
              in Inr (set_hand state 0 (player_hand\<lparr>result := Some r\<rparr>)))
           else
            (case round_loop policy dealer_up lg 0 state of
               Inl e \<Rightarrow> Inl e
             | Inr st1 \<Rightarrow>
                (case (if list_ex (\<lambda>h. \<not> is_busted h) (player_hands st1)
                       then (case play_dealer (shoe st1) (dealer_cards st1) of
                               Inl e \<Rightarrow> Inl e
                             | Inr (sh', dcards') \<Rightarrow>
                                 Inr (st1\<lparr>shoe := sh', dealer_cards := dcards'\<rparr>))
                       else Inr st1) of
                   Inl e \<Rightarrow> Inl e
                 | Inr st2 \<Rightarrow>
                     Inr (st2\<lparr>player_hands :=
                            map (\<lambda>h. fst (settle_hand_vs_dealer h (dealer_cards st2)))
                                (player_hands st2)\<rparr>))))))))"

section \<open>The rules as the specification words them\<close>

text \<open>
  The settlement rule in the specification's words: busted loses the bet; else a dealer
  total above 21 wins the bet; else a natural against a dealer without a two-card 21 wins
  1.5 times the bet; else the higher total wins the bet and equal totals push.
\<close>

definition settle_rule_spec :: "HandState \<Rightarrow> int list \<Rightarrow> real" where
  "settle_rule_spec hand dcards =
     (let ptot = fst (hand_value (cards hand));
          dtot = fst (hand_value dcards)
      in if is_busted hand then - bet hand
         else if dtot > 21 then bet hand
         else if is_blackjack_flag hand \<and> \<not> (length dcards = 2 \<and> dtot = 21)
         then 3 / 2 * bet hand
         else if ptot > dtot then bet hand
         else if ptot < dtot then - bet hand
         else 0)"

text \<open>
  The dealer's table rule in the specification's words: the dealer stops on a total
  above 21; under S17 the dealer stands on every total of 17 or more; under H17 the
  dealer stands on a hard total of 17 or more and on any total above 17 (so soft 17 is
  hit).
\<close>

definition dealer_stands_spec :: "bool \<Rightarrow> int list \<Rightarrow> bool" where
  "dealer_stands_spec hits_soft_17 dcards =
     (let (tot, soft) = hand_value dcards
      in tot > 21 \<or>
         (if hits_soft_17 then (tot \<ge> 17 \<and> \<not> soft) \<or> tot > 17 else tot \<ge> 17))"

section \<open>Invariant of the hand list\<close>

text \<open>
  Every hand carries the base bet, or twice the base bet and is then finished: the
  invariant that the action loop of \<^verbatim>\<open>play_round\<close> maintains.
\<close>

definition bets_ok :: "real \<Rightarrow> HandState list \<Rightarrow> bool" where
  "bets_ok b hands = (\<forall>h\<in>set hands. bet h = b \<or> (bet h = 2 * b \<and> is_finished h))"

section \<open>Shoe: drawing\<close>

text \<open>
  C8. On a non-empty shoe \<^verbatim>\<open>draw_card\<close> returns the card at the end of the list and leaves
  the list without that one card (one element shorter, the other cards in place); on an
  empty shoe it fails with the exhaustion error, and nothing is reshuffled.
\<close>

theorem draw_card_removes_one:
  "draw_card [] = Inl ShoeEmpty \<and>
   draw_card (rest @ [c]) = Inr (c, rest) \<and>
   (sh \<noteq> [] \<longrightarrow>
      (\<exists>c' sh'. draw_card sh = Inr (c', sh') \<and> sh = sh' @ [c'] \<and>
                length sh' + 1 = length sh))"
  by (auto simp: draw_card_def)

theorem draw_card_removes_one_witness:
  "draw_card [] = Inl ShoeEmpty \<and>
   draw_card ([2, 3] @ [10]) = Inr (10, [2, 3]) \<and>
   [2, 3, 10 :: int] \<noteq> [] \<and>
   (\<exists>c' sh'. draw_card [2, 3, 10] = Inr (c', sh') \<and> [2, 3, 10] = sh' @ [c'] \<and>
             length sh' + 1 = length [2, 3, 10 :: int])"
  using draw_card_removes_one [of "[2, 3]" 10 "[2, 3, 10]"] by simp

section \<open>Hand evaluation: totals and softness\<close>

lemma hand_value_loop_downgrades:
  "\<exists>k\<le>a. hand_value_loop t a = (t - 10 * int k, a - k) \<and>
          (\<forall>j<k. t - 10 * int j > 21) \<and>
          (k = a \<or> t - 10 * int k \<le> 21)"
proof (induction t a rule: hand_value_loop.induct)
  case (1 t a)
  show ?case
  proof (cases "t > 21 \<and> a > 0")
    case False
    then have "hand_value_loop t a = (t, a)"
      by (subst hand_value_loop.simps) auto
    with False show ?thesis
      by (intro exI [of _ 0]) auto
  next
    case True
    from "1.IH" [OF True] obtain k where
      k: "k \<le> a - 1"
         "hand_value_loop (t - 10) (a - 1) = (t - 10 - 10 * int k, a - 1 - k)"
         "\<forall>j<k. t - 10 - 10 * int j > 21"
         "k = a - 1 \<or> t - 10 - 10 * int k \<le> 21"
      by auto
    have all: "\<forall>j<Suc k. t - 10 * int j > 21"
    proof (intro allI impI)
      fix j assume "j < Suc k"
      show "t - 10 * int j > 21"
      proof (cases j)
        case 0
        with True show ?thesis by simp
      next
        case (Suc j')
        with \<open>j < Suc k\<close> k(3) have "t - 10 - 10 * int j' > 21" by simp
        with Suc show ?thesis by simp
      qed
    qed
    from True k have "hand_value_loop t a = (t - 10 * int (Suc k), a - Suc k)"
      by (subst hand_value_loop.simps) simp
    moreover from True k(1) have "Suc k \<le> a" by arith
    moreover from True k(4) have "Suc k = a \<or> t - 10 * int (Suc k) \<le> 21" by (simp; arith)
    ultimately show ?thesis using all
      by (intro exI [of _ "Suc k"]) simp
  qed
qed

text \<open>
  C5. \<^verbatim>\<open>hand_value\<close> returns the sum of the ranks minus 10 for each of the \<open>k\<close> Aces it
  stops counting as 11: an Ace is downgraded only while the running total exceeds 21, and
  the downgrading stops when the total is at most 21 or no Ace counted as 11 remains.
  The soft flag is true iff an Ace is still counted as 11 (\<open>k\<close> below the number of Aces)
  and the total is at most 21. \<^verbatim>\<open>[11,6]\<close> gives (17, soft) and \<^verbatim>\<open>[11,6,10]\<close> gives
  (17, hard).
\<close>

theorem hand_value_downgrades_aces:
  "(\<exists>k\<le>count_list hand 11.
      fst (hand_value hand) = sum_list hand - 10 * int k \<and>
      (\<forall>j<k. sum_list hand - 10 * int j > 21) \<and>
      (k = count_list hand 11 \<or> sum_list hand - 10 * int k \<le> 21) \<and>
      snd (hand_value hand) = (k < count_list hand 11 \<and> fst (hand_value hand) \<le> 21)) \<and>
   hand_value [11, 6] = (17, True) \<and>
   hand_value [11, 6, 10] = (17, False)"
proof (intro conjI)
  obtain k where k: "k \<le> count_list hand 11"
      "hand_value_loop (sum_list hand) (count_list hand 11)
         = (sum_list hand - 10 * int k, count_list hand 11 - k)"
      "\<forall>j<k. sum_list hand - 10 * int j > 21"
      "k = count_list hand 11 \<or> sum_list hand - 10 * int k \<le> 21"
    using hand_value_loop_downgrades [of "count_list hand 11" "sum_list hand"] by auto
  then show "\<exists>k\<le>count_list hand 11.
      fst (hand_value hand) = sum_list hand - 10 * int k \<and>
      (\<forall>j<k. sum_list hand - 10 * int j > 21) \<and>
      (k = count_list hand 11 \<or> sum_list hand - 10 * int k \<le> 21) \<and>
      snd (hand_value hand) = (k < count_list hand 11 \<and> fst (hand_value hand) \<le> 21)"
    by (intro exI [of _ k]) (auto simp: hand_value_def)
  show "hand_value [11, 6] = (17, True)"
    by (simp add: hand_value_def hand_value_loop.simps)
  show "hand_value [11, 6, 10] = (17, False)"
    by (simp add: hand_value_def hand_value_loop.simps)
qed

theorem hand_value_downgrades_aces_witness:
  "(\<exists>k\<le>count_list [11, 11, 10 :: int] 11.
      fst (hand_value [11, 11, 10]) = sum_list [11, 11, 10] - 10 * int k \<and>
      k = 2) \<and>
   hand_value [11, 11, 10] = (12, False)"
  using hand_value_downgrades_aces [of "[11, 11, 10]"]
  by (auto simp: hand_value_def hand_value_loop.simps)

section \<open>Settlement is write-once\<close>

lemma settle_result_set:
  "settle_hand_vs_dealer hand dcards = (hand', r) \<Longrightarrow> result hand' = Some r"
  by (auto simp: settle_hand_vs_dealer_def Let_def
      split: option.splits prod.splits if_splits)

lemma settle_already_set:
  "result hand = Some r \<Longrightarrow> settle_hand_vs_dealer hand dcards = (hand, r)"
  by (simp add: settle_hand_vs_dealer_def)

text \<open>
  C4. \<^verbatim>\<open>settle_hand_vs_dealer\<close> returns a result that is already set unchanged, together
  with the unchanged hand; on an unsettled hand it stores and returns the amount given by
  the settlement rule (busted: minus the bet; dealer above 21: the bet; natural flag and no
  two-card dealer 21: 1.5 times the bet; otherwise the higher total wins the bet and equal
  totals give 0). Settling again, against any dealer cards, returns the same hand and the
  same amount: the result is written once.
\<close>

theorem settle_hand_vs_dealer_write_once:
  "settle_hand_vs_dealer (hand\<lparr>result := Some r\<rparr>) dcards = (hand\<lparr>result := Some r\<rparr>, r) \<and>
   settle_hand_vs_dealer (hand\<lparr>result := None\<rparr>) dcards
     = (hand\<lparr>result := Some (settle_rule_spec hand dcards)\<rparr>, settle_rule_spec hand dcards) \<and>
   settle_hand_vs_dealer (fst (settle_hand_vs_dealer hand dcards)) dcards'
     = settle_hand_vs_dealer hand dcards"
proof (intro conjI)
  show "settle_hand_vs_dealer (hand\<lparr>result := Some r\<rparr>) dcards = (hand\<lparr>result := Some r\<rparr>, r)"
    by (simp add: settle_hand_vs_dealer_def)
  show "settle_hand_vs_dealer (hand\<lparr>result := None\<rparr>) dcards
     = (hand\<lparr>result := Some (settle_rule_spec hand dcards)\<rparr>, settle_rule_spec hand dcards)"
    by (auto simp: settle_hand_vs_dealer_def settle_rule_spec_def BLACKJACK_PAYOUT_def Let_def
        split: prod.splits)
  show "settle_hand_vs_dealer (fst (settle_hand_vs_dealer hand dcards)) dcards'
     = settle_hand_vs_dealer hand dcards"
  proof -
    obtain hand' r where s: "settle_hand_vs_dealer hand dcards = (hand', r)"
      by (cases "settle_hand_vs_dealer hand dcards")
    from settle_already_set [OF settle_result_set [OF s], of dcards'] s show ?thesis
      by simp
  qed
qed

section \<open>The dealer follows the table rule\<close>

lemma play_dealer_with_unfold:
  "play_dealer_with h sh dcards =
     (if dealer_stands_spec h dcards then Inr (sh, dcards)
      else if sh = [] then Inl ShoeEmpty
      else play_dealer_with h (butlast sh) (dcards @ [last sh]))"
  by (subst play_dealer_with.simps)
     (auto simp: dealer_stands_spec_def draw_card_def Let_def split: prod.splits)

lemma play_dealer_with_trace:
  "case play_dealer_with h sh dcards of
     Inr (sh', dcards') \<Rightarrow>
       (\<exists>drawn. dcards' = dcards @ drawn \<and> sh = sh' @ rev drawn \<and>
          dealer_stands_spec h dcards' \<and>
          (\<forall>n<length drawn. \<not> dealer_stands_spec h (dcards @ take n drawn)))
   | Inl e \<Rightarrow>
       e = ShoeEmpty \<and>
       (\<forall>n\<le>length sh. \<not> dealer_stands_spec h (dcards @ take n (rev sh)))"
proof (induction h sh dcards rule: play_dealer_with.induct)
  case (1 h sh dcards)
  show ?case
  proof (cases "dealer_stands_spec h dcards")
    case True
    then show ?thesis
      by (subst play_dealer_with_unfold) simp
  next
    case ns: False
    show ?thesis
    proof (cases "sh = []")
      case True
      with ns show ?thesis
        by (subst play_dealer_with_unfold) simp
    next
      case ne: False
      then obtain c rest where sh: "sh = rest @ [c]"
        by (metis append_butlast_last_id)
      have step: "play_dealer_with h sh dcards = play_dealer_with h rest (dcards @ [c])"
        using ns sh by (subst play_dealer_with_unfold) simp
      have dr: "draw_card sh = Inr (c, rest)"
        using sh by (simp add: draw_card_def)
      obtain tot soft where hv: "hand_value dcards = (tot, soft)"
        by (cases "hand_value dcards")
      from ns hv have conds: "\<not> tot > 21" "\<not> (\<not> h \<and> tot \<ge> 17)" "\<not> (h \<and> tot > 17)"
        "\<not> (h \<and> tot = 17 \<and> \<not> soft)"
        by (auto simp: dealer_stands_spec_def)
      note IH = "1.IH" [OF hv [symmetric] refl conds dr refl]
      show ?thesis
      proof (cases "play_dealer_with h rest (dcards @ [c])")
        case (Inl e)
        with IH have e: "e = ShoeEmpty"
          and all: "\<forall>n\<le>length rest. \<not> dealer_stands_spec h ((dcards @ [c]) @ take n (rev rest))"
          by auto
        have "\<not> dealer_stands_spec h (dcards @ take n (rev sh))" if "n \<le> length sh" for n
        proof (cases n)
          case 0
          with ns show ?thesis by simp
        next
          case (Suc m)
          with that sh have "m \<le> length rest" by simp
          with all have "\<not> dealer_stands_spec h ((dcards @ [c]) @ take m (rev rest))" by blast
          with Suc sh show ?thesis by simp
        qed
        with Inl e step show ?thesis by simp
      next
        case (Inr p)
        obtain sh' dcards' where p: "p = (sh', dcards')" by (cases p)
        with Inr IH obtain drawn where
          d: "dcards' = (dcards @ [c]) @ drawn" "rest = sh' @ rev drawn"
             "dealer_stands_spec h dcards'"
             "\<forall>n<length drawn. \<not> dealer_stands_spec h ((dcards @ [c]) @ take n drawn)"
          by auto
        have "\<not> dealer_stands_spec h (dcards @ take n (c # drawn))" if "n < length (c # drawn)" for n
        proof (cases n)
          case 0
          with ns show ?thesis by simp
        next
          case (Suc m)
          with that have "m < length drawn" by simp
          with d(4) have "\<not> dealer_stands_spec h ((dcards @ [c]) @ take m drawn)" by blast
          with Suc show ?thesis by simp
        qed
        with d sh have "dcards' = dcards @ (c # drawn) \<and> sh = sh' @ rev (c # drawn) \<and>
          dealer_stands_spec h dcards' \<and>
          (\<forall>n<length (c # drawn). \<not> dealer_stands_spec h (dcards @ take n (c # drawn)))"
          by simp
        then have "\<exists>drawn. dcards' = dcards @ drawn \<and> sh = sh' @ rev drawn \<and>
          dealer_stands_spec h dcards' \<and>
          (\<forall>n<length drawn. \<not> dealer_stands_spec h (dcards @ take n drawn))"
          by blast
        with Inr p step show ?thesis by simp
      qed
    qed
  qed
qed

text \<open>
  C7. \<^verbatim>\<open>play_dealer\<close> runs the loop with the S17 setting of the module constant. For
  either setting of the constant the loop draws from the end of the shoe exactly as long as
  the table rule does not say stand: when it returns, the dealer's cards are the initial
  cards followed by the drawn cards, the rule says stand on the final cards, and it did not
  say stand on any earlier prefix; when the shoe runs out first, the rule never said stand.
  Under S17 the rule says stand exactly on totals of 17 or more; under H17 exactly on
  totals above 21, totals above 17, and hard 17 (soft 17 is hit).
\<close>

theorem play_dealer_follows_table_rule:
  "(case play_dealer_with h sh dcards of
      Inr (sh', dcards') \<Rightarrow>
        (\<exists>drawn. dcards' = dcards @ drawn \<and> sh = sh' @ rev drawn \<and>
           dealer_stands_spec h dcards' \<and>
           (\<forall>n<length drawn. \<not> dealer_stands_spec h (dcards @ take n drawn)))
    | Inl e \<Rightarrow>
        e = ShoeEmpty \<and>
        (\<forall>n\<le>length sh. \<not> dealer_stands_spec h (dcards @ take n (rev sh)))) \<and>
   play_dealer sh dcards = play_dealer_with False sh dcards \<and>
   dealer_stands_spec False dcards = (fst (hand_value dcards) \<ge> 17) \<and>
   dealer_stands_spec True dcards =
     (fst (hand_value dcards) > 21 \<or> fst (hand_value dcards) > 17 \<or>
      (fst (hand_value dcards) = 17 \<and> \<not> snd (hand_value dcards)))"
proof (intro conjI)
  show "case play_dealer_with h sh dcards of
      Inr (sh', dcards') \<Rightarrow>
        (\<exists>drawn. dcards' = dcards @ drawn \<and> sh = sh' @ rev drawn \<and>
           dealer_stands_spec h dcards' \<and>
           (\<forall>n<length drawn. \<not> dealer_stands_spec h (dcards @ take n drawn)))
    | Inl e \<Rightarrow>
        e = ShoeEmpty \<and>
        (\<forall>n\<le>length sh. \<not> dealer_stands_spec h (dcards @ take n (rev sh)))"
    by (rule play_dealer_with_trace)
  show "play_dealer sh dcards = play_dealer_with False sh dcards"
    by (simp add: play_dealer_def DEALER_HITS_SOFT_17_def)
  show "dealer_stands_spec False dcards = (fst (hand_value dcards) \<ge> 17)"
    by (auto simp: dealer_stands_spec_def split: prod.splits)
  show "dealer_stands_spec True dcards =
     (fst (hand_value dcards) > 21 \<or> fst (hand_value dcards) > 17 \<or>
      (fst (hand_value dcards) = 17 \<and> \<not> snd (hand_value dcards)))"
    by (auto simp: dealer_stands_spec_def split: prod.splits)
qed

theorem play_dealer_follows_table_rule_witness:
  "play_dealer_with True [5, 10] [11, 6] = Inr ([5], [11, 6, 10]) \<and>
   dealer_stands_spec True [11, 6, 10] \<and>
   \<not> dealer_stands_spec True [11, 6] \<and>
   play_dealer [5, 10] [11, 6] = Inr ([5, 10], [11, 6]) \<and>
   play_dealer [5, 10] [10, 6] = Inr ([5], [10, 6, 10])"
proof -
  have run: "play_dealer_with True [5, 10] [11, 6] = Inr ([5], [11, 6, 10])"
    by code_simp
  have s17: "play_dealer_with False [5, 10] [11, 6] = Inr ([5, 10], [11, 6])"
    "play_dealer_with False [5, 10] [10, 6] = Inr ([5], [10, 6, 10])"
    by code_simp+
  from play_dealer_follows_table_rule [where h = True and sh = "[5, 10]" and dcards = "[11, 6]"] run
  obtain drawn where d: "[11, 6, 10] = [11, 6] @ drawn"
    "dealer_stands_spec True [11, 6, 10]"
    "\<forall>n<length drawn. \<not> dealer_stands_spec True ([11, 6] @ take n drawn)"
    by auto
  from d(1) have "drawn = [10]" by simp
  with d(3) have "\<not> dealer_stands_spec True [11, 6]" by auto
  moreover from play_dealer_follows_table_rule [where h = True and sh = "[5, 10]" and dcards = "[11, 6]"]
  have "play_dealer [5, 10] [11, 6] = play_dealer_with False [5, 10] [11, 6]"
    by simp
  moreover from play_dealer_follows_table_rule [where h = True and sh = "[5, 10]" and dcards = "[10, 6]"]
  have "play_dealer [5, 10] [10, 6] = play_dealer_with False [5, 10] [10, 6]"
    by simp
  ultimately show ?thesis using run s17 d(2) by simp
qed

section \<open>Naturals are settled at the deal\<close>

lemma draw_card_snoc: "draw_card (rest @ [c]) = Inr (c, rest)"
  by (simp add: draw_card_def)

lemma initial_deal:
  "draw_card (rest @ [d2, d1, p2, p1]) = Inr (p1, rest @ [d2, d1, p2])"
  "draw_card (rest @ [d2, d1, p2]) = Inr (p2, rest @ [d2, d1])"
  "draw_card (rest @ [d2, d1]) = Inr (d1, rest @ [d2])"
  by (simp_all add: draw_card_def butlast_append)

text \<open>
  C3. When the player's first two cards or the dealer's two cards are a natural,
  \<^verbatim>\<open>play_round\<close> returns right after the deal: the shoe has lost the four dealt cards
  only, the single hand carries its result (1.5 times the base bet for a player natural
  alone, minus the base bet for a dealer natural alone, 0 for both), the step log is
  empty, and the outcome does not depend on the policy, which is never consulted.
\<close>

theorem play_round_naturals_settle_immediately:
  assumes "is_blackjack [p1, p2] \<or> is_blackjack [d1, d2]"
  shows "play_round (rest @ [d2, d1, p2, p1]) policy base_bet lg =
           Inr \<lparr>shoe = rest,
                player_hands =
                  [\<lparr>cards = [p1, p2], bet = base_bet, is_finished = False, is_busted = False,
                    is_blackjack_flag = is_blackjack [p1, p2], is_split_ace = False,
                    result = Some (if is_blackjack [p1, p2] \<and> \<not> is_blackjack [d1, d2]
                                   then 3 / 2 * base_bet
                                   else if is_blackjack [d1, d2] \<and> \<not> is_blackjack [p1, p2]
                                   then - base_bet
                                   else 0),
                    meta = []\<rparr>],
                dealer_cards = [d1, d2],
                initial_blackjack = is_blackjack [p1, p2],
                logs = (if lg then Some [] else None)\<rparr>"
  using assms
  by (auto simp: play_round_def initial_deal draw_card_snoc set_hand_def Let_def
        BLACKJACK_PAYOUT_def)

theorem play_round_naturals_settle_immediately_witness:
  "is_blackjack [11, 10] \<and> \<not> is_blackjack [10, 9] \<and>
   play_round [7, 10, 11, 9, 10] (\<lambda>cs du ctx. ''H'') 2 True =
     Inr \<lparr>shoe = [7],
          player_hands =
            [\<lparr>cards = [10, 9], bet = 2, is_finished = False, is_busted = False,
              is_blackjack_flag = False, is_split_ace = False,
              result = Some (- 2), meta = []\<rparr>],
          dealer_cards = [11, 10], initial_blackjack = False, logs = Some []\<rparr> \<and>
   play_round [7, 10, 9, 10, 11] (\<lambda>cs du ctx. ''H'') 2 True =
     Inr \<lparr>shoe = [7],
          player_hands =
            [\<lparr>cards = [11, 10], bet = 2, is_finished = False, is_busted = False,
              is_blackjack_flag = True, is_split_ace = False,
              result = Some 3, meta = []\<rparr>],
          dealer_cards = [9, 10], initial_blackjack = True, logs = Some []\<rparr> \<and>
   play_round [7, 11, 10, 10, 11] (\<lambda>cs du ctx. ''H'') 2 False =
     Inr \<lparr>shoe = [7],
          player_hands =
            [\<lparr>cards = [11, 10], bet = 2, is_finished = False, is_busted = False,
              is_blackjack_flag = True, is_split_ace = False,
              result = Some 0, meta = []\<rparr>],
          dealer_cards = [10, 11], initial_blackjack = True, logs = None\<rparr>"
proof -
  have bj: "is_blackjack [11, 10]" "is_blackjack [10, 11]"
    "\<not> is_blackjack [10, 9]" "\<not> is_blackjack [9, 10]"
    by (simp_all add: is_blackjack_def hand_value_def hand_value_loop.simps)
  from bj
    play_round_naturals_settle_immediately
      [where ?p1.0 = 10 and ?p2.0 = 9 and ?d1.0 = 11 and ?d2.0 = 10 and rest = "[7]"
         and policy = "\<lambda>cs du ctx. ''H''" and base_bet = 2 and lg = True]
    play_round_naturals_settle_immediately
      [where ?p1.0 = 11 and ?p2.0 = 10 and ?d1.0 = 9 and ?d2.0 = 10 and rest = "[7]"
         and policy = "\<lambda>cs du ctx. ''H''" and base_bet = 2 and lg = True]
    play_round_naturals_settle_immediately
      [where ?p1.0 = 11 and ?p2.0 = 10 and ?d1.0 = 10 and ?d2.0 = 11 and rest = "[7]"
         and policy = "\<lambda>cs du ctx. ''H''" and base_bet = 2 and lg = False]
  show ?thesis by simp
qed

section \<open>Splitting a pair\<close>

lemma draw_card_snoc2: "draw_card (rest @ [c', c]) = Inr (c, rest @ [c'])"
  using draw_card_snoc [of "rest @ [c']" c] by simp

lemma split_of_pair:
  assumes "i < length (player_hands st)"
      and "cards (player_hands st ! i) = [c, c]"
      and "length (filter (\<lambda>h. meta_get (meta h) ''from_split'' False) (player_hands st))
             < MAX_SPLITS"
  shows "apply_action_split (rest @ [c2, c1]) st i =
     Inr (rest, st\<lparr>player_hands :=
       take i (player_hands st) @
       [(player_hands st ! i)\<lparr>cards := [c, c1],
           is_blackjack_flag := is_blackjack [c, c1],
           meta := AList.update ''from_split'' True (meta (player_hands st ! i)),
           is_split_ace := (c = 11 \<or> is_split_ace (player_hands st ! i)),
           is_finished := (c = 11 \<or> is_finished (player_hands st ! i))\<rparr>,
        \<lparr>cards = [c, c2], bet = bet (player_hands st ! i), is_finished = (c = 11),
          is_busted = False, is_blackjack_flag = is_blackjack [c, c2],
          is_split_ace = (c = 11), result = None, meta = [(''from_split'', True)]\<rparr>] @
       drop (Suc i) (player_hands st)\<rparr>)"
  using assms
  by (simp add: apply_action_split_def can_split_def draw_card_snoc draw_card_snoc2
        list_insert_def Let_def take_Suc_conv_app_nth)

lemma ace_pair_value: "hand_value [11, 11] = (12, True)"
  by (simp add: hand_value_def hand_value_loop.simps)

lemma ace_pair_not_natural: "\<not> is_blackjack [11, 11]"
  by (simp add: is_blackjack_def ace_pair_value)

lemma ace_split_round:
  assumes "\<not> is_blackjack [d1, d2]"
      and "upper (policy [11, 11] d1
             \<lparr>player_total = 12, player_soft = True, ctx_can_split = True,
              can_double = True, ctx_hand_index = 0, num_hands = 1\<rparr>) = ''P''"
  shows "round_loop policy d1 lg 0
           \<lparr>shoe = rest @ [c2, c1],
            player_hands = [\<lparr>cards = [11, 11], bet = base_bet, is_finished = False,
                             is_busted = False, is_blackjack_flag = False,
                             is_split_ace = False, result = None, meta = []\<rparr>],
            dealer_cards = [d1, d2], initial_blackjack = False,
            logs = (if lg then Some [] else None)\<rparr>
         = Inr \<lparr>shoe = rest,
            player_hands =
              [\<lparr>cards = [11, c1], bet = base_bet, is_finished = True,
                is_busted = False, is_blackjack_flag = is_blackjack [11, c1],
                is_split_ace = True, result = None, meta = [(''from_split'', True)]\<rparr>,
               \<lparr>cards = [11, c2], bet = base_bet, is_finished = True,
                is_busted = False, is_blackjack_flag = is_blackjack [11, c2],
                is_split_ace = True, result = None, meta = [(''from_split'', True)]\<rparr>],
            dealer_cards = [d1, d2], initial_blackjack = False,
            logs = (if lg then Some
              [\<lparr>step_hand_index = 0, step_cards = [11, 11], step_dealer_up = d1,
                step_action = ''P'',
                step_ctx = \<lparr>player_total = 12, player_soft = True, ctx_can_split = True,
                  can_double = True, ctx_hand_index = 0, num_hands = 1\<rparr>\<rparr>] else None)\<rparr>"
  using assms
  by (simp add: round_loop.simps hand_loop.simps hand_step_def ace_pair_value can_split_def
       apply_action_split_def meta_get_def MAX_SPLITS_def draw_card_snoc draw_card_snoc2
       list_insert_def Let_def)

lemma settle_unsettled:
  "result hand = None \<Longrightarrow>
   settle_hand_vs_dealer hand dcards =
     (hand\<lparr>result := Some (settle_rule_spec hand dcards)\<rparr>, settle_rule_spec hand dcards)"
  by (auto simp: settle_hand_vs_dealer_def settle_rule_spec_def BLACKJACK_PAYOUT_def Let_def
      split: prod.splits)

lemma ace_split_play_round:
  assumes "\<not> is_blackjack [d1, d2]"
      and "upper (policy [11, 11] d1
             \<lparr>player_total = 12, player_soft = True, ctx_can_split = True,
              can_double = True, ctx_hand_index = 0, num_hands = 1\<rparr>) = ''P''"
  shows "play_round (rest @ [c2, c1, d2, d1, 11, 11]) policy base_bet lg =
     (case play_dealer rest [d1, d2] of
        Inl e \<Rightarrow> Inl e
      | Inr (sh', dcards') \<Rightarrow>
          Inr \<lparr>shoe = sh',
            player_hands =
              map (\<lambda>h. h\<lparr>result := Some (settle_rule_spec h dcards')\<rparr>)
              [\<lparr>cards = [11, c1], bet = base_bet, is_finished = True,
                is_busted = False, is_blackjack_flag = is_blackjack [11, c1],
                is_split_ace = True, result = None, meta = [(''from_split'', True)]\<rparr>,
               \<lparr>cards = [11, c2], bet = base_bet, is_finished = True,
                is_busted = False, is_blackjack_flag = is_blackjack [11, c2],
                is_split_ace = True, result = None, meta = [(''from_split'', True)]\<rparr>],
            dealer_cards = dcards', initial_blackjack = False,
            logs = (if lg then Some
              [\<lparr>step_hand_index = 0, step_cards = [11, 11], step_dealer_up = d1,
                step_action = ''P'',
                step_ctx = \<lparr>player_total = 12, player_soft = True, ctx_can_split = True,
                  can_double = True, ctx_hand_index = 0, num_hands = 1\<rparr>\<rparr>] else None)\<rparr>)"
  using assms
  by (simp add: play_round_def draw_card_def butlast_append ace_pair_not_natural
        ace_split_round [where rest = rest and ?c1.0 = c1 and ?c2.0 = c2] settle_unsettled
        split: sum.splits)

text \<open>
  C6. Splitting a pair of Aces (below the split cap, with two cards in the shoe) replaces
  the acting hand by exactly two hands: the acting hand redealt to the Ace and the first
  drawn card, and right after it a new hand of the Ace and the second drawn card, both
  marked split-ace and finished. In a round whose first decision on a dealt Ace pair is
  "P", the returned hands are these two hands with two cards each, both finished and
  split-ace; the policy was consulted once, and every card drawn after the split went to
  the dealer.
\<close>

theorem split_aces_two_finished_hands:
  "(i < length (player_hands st) \<and> cards (player_hands st ! i) = [11, 11] \<and>
    length (filter (\<lambda>h. meta_get (meta h) ''from_split'' False) (player_hands st))
      < MAX_SPLITS \<longrightarrow>
    apply_action_split (rest @ [c2, c1]) st i =
      Inr (rest, st\<lparr>player_hands :=
        take i (player_hands st) @
        [(player_hands st ! i)\<lparr>cards := [11, c1],
            is_blackjack_flag := is_blackjack [11, c1],
            meta := AList.update ''from_split'' True (meta (player_hands st ! i)),
            is_split_ace := True, is_finished := True\<rparr>,
         \<lparr>cards = [11, c2], bet = bet (player_hands st ! i), is_finished = True,
           is_busted = False, is_blackjack_flag = is_blackjack [11, c2],
           is_split_ace = True, result = None, meta = [(''from_split'', True)]\<rparr>] @
        drop (Suc i) (player_hands st)\<rparr>)) \<and>
   (\<not> is_blackjack [d1, d2] \<and>
    upper (policy [11, 11] d1
             \<lparr>player_total = 12, player_soft = True, ctx_can_split = True,
              can_double = True, ctx_hand_index = 0, num_hands = 1\<rparr>) = ''P'' \<longrightarrow>
    (case play_round (rest @ [c2, c1, d2, d1, 11, 11]) policy base_bet lg of
       Inl e \<Rightarrow> play_dealer rest [d1, d2] = Inl e
     | Inr st' \<Rightarrow>
         play_dealer rest [d1, d2] = Inr (shoe st', dealer_cards st') \<and>
         map cards (player_hands st') = [[11, c1], [11, c2]] \<and>
         map is_finished (player_hands st') = [True, True] \<and>
         map is_split_ace (player_hands st') = [True, True] \<and>
         map_option length (logs st') = (if lg then Some 1 else None)))"
proof (intro conjI impI)
  assume a: "i < length (player_hands st) \<and> cards (player_hands st ! i) = [11, 11] \<and>
    length (filter (\<lambda>h. meta_get (meta h) ''from_split'' False) (player_hands st))
      < MAX_SPLITS"
  then show "apply_action_split (rest @ [c2, c1]) st i =
      Inr (rest, st\<lparr>player_hands :=
        take i (player_hands st) @
        [(player_hands st ! i)\<lparr>cards := [11, c1],
            is_blackjack_flag := is_blackjack [11, c1],
            meta := AList.update ''from_split'' True (meta (player_hands st ! i)),
            is_split_ace := True, is_finished := True\<rparr>,
         \<lparr>cards = [11, c2], bet = bet (player_hands st ! i), is_finished = True,
           is_busted = False, is_blackjack_flag = is_blackjack [11, c2],
           is_split_ace = True, result = None, meta = [(''from_split'', True)]\<rparr>] @
        drop (Suc i) (player_hands st)\<rparr>)"
    by (simp add: split_of_pair [where c = 11])
next
  assume b: "\<not> is_blackjack [d1, d2] \<and>
    upper (policy [11, 11] d1
             \<lparr>player_total = 12, player_soft = True, ctx_can_split = True,
              can_double = True, ctx_hand_index = 0, num_hands = 1\<rparr>) = ''P''"
  then show "case play_round (rest @ [c2, c1, d2, d1, 11, 11]) policy base_bet lg of
       Inl e \<Rightarrow> play_dealer rest [d1, d2] = Inl e
     | Inr st' \<Rightarrow>
         play_dealer rest [d1, d2] = Inr (shoe st', dealer_cards st') \<and>
         map cards (player_hands st') = [[11, c1], [11, c2]] \<and>
         map is_finished (player_hands st') = [True, True] \<and>
         map is_split_ace (player_hands st') = [True, True] \<and>
         map_option length (logs st') = (if lg then Some 1 else None)"
    by (simp add: ace_split_play_round split: sum.splits)
qed


theorem split_aces_two_finished_hands_witness:
  "apply_action_split ([5] @ [9, 10])
     \<lparr>shoe = [5, 9, 10],
      player_hands = [\<lparr>cards = [11, 11], bet = 1, is_finished = False, is_busted = False,
                       is_blackjack_flag = False, is_split_ace = False, result = None,
                       meta = []\<rparr>],
      dealer_cards = [10, 7], initial_blackjack = False, logs = None\<rparr> 0 =
   Inr ([5],
     \<lparr>shoe = [5, 9, 10],
      player_hands = [\<lparr>cards = [11, 10], bet = 1, is_finished = True, is_busted = False,
                       is_blackjack_flag = True, is_split_ace = True, result = None,
                       meta = [(''from_split'', True)]\<rparr>,
                      \<lparr>cards = [11, 9], bet = 1, is_finished = True, is_busted = False,
                       is_blackjack_flag = False, is_split_ace = True, result = None,
                       meta = [(''from_split'', True)]\<rparr>],
      dealer_cards = [10, 7], initial_blackjack = False, logs = None\<rparr>) \<and>
   (case play_round ([5] @ [9, 10, 7, 10, 11, 11]) (\<lambda>cs du ctx. ''p'') 1 True of
      Inl e \<Rightarrow> False
    | Inr st' \<Rightarrow>
        shoe st' = [5] \<and> dealer_cards st' = [10, 7] \<and>
        map cards (player_hands st') = [[11, 10], [11, 9]] \<and>
        map is_finished (player_hands st') = [True, True] \<and>
        map is_split_ace (player_hands st') = [True, True] \<and>
        map_option length (logs st') = Some 1)"
proof -
  have bj: "\<not> is_blackjack [10, 7]" "is_blackjack [11, 10]" "\<not> is_blackjack [11, 9]"
    by (simp_all add: is_blackjack_def hand_value_def hand_value_loop.simps)
  have up: "upper ''p'' = ''P''"
    by code_simp
  have dealer: "play_dealer [5] [10, 7] = Inr ([5], [10, 7])"
    by code_simp
  let ?st = "\<lparr>shoe = [5, 9, 10],
      player_hands = [\<lparr>cards = [11, 11], bet = 1, is_finished = False, is_busted = False,
                       is_blackjack_flag = False, is_split_ace = False, result = None,
                       meta = []\<rparr>],
      dealer_cards = [10, 7], initial_blackjack = False, logs = None\<rparr>"
  note inst = split_aces_two_finished_hands
      [where i = 0 and st = ?st and rest = "[5]" and ?c1.0 = 10 and ?c2.0 = 9
         and ?d1.0 = 10 and ?d2.0 = 7 and policy = "\<lambda>cs du ctx. ''p''"
         and base_bet = 1 and lg = True]
  from inst bj up dealer show ?thesis
    by (auto simp: meta_get_def MAX_SPLITS_def split: sum.splits)
qed

section \<open>Bets: the base bet or its double\<close>

lemma bets_ok_update:
  "bets_ok b hands \<Longrightarrow> bet h = b \<or> (bet h = 2 * b \<and> is_finished h) \<Longrightarrow>
   bets_ok b (hands[i := h])"
  unfolding bets_ok_def
  by (metis in_set_conv_nth length_list_update nth_list_update_eq nth_list_update_neq)

lemma bets_ok_insert:
  "bets_ok b hands \<Longrightarrow> bet h = b \<Longrightarrow> bets_ok b (list_insert n h hands)"
  unfolding bets_ok_def list_insert_def
  by (auto dest: in_set_takeD in_set_dropD)

lemma bets_ok_unfinished:
  "bets_ok b hands \<Longrightarrow> i < length hands \<Longrightarrow> \<not> is_finished (hands ! i) \<Longrightarrow>
   bet (hands ! i) = b"
  unfolding bets_ok_def by (meson nth_mem)

lemma apply_action_hit_bet:
  "apply_action_hit sh hand = Inr (sh', hand') \<Longrightarrow> bet hand' = bet hand"
  by (auto simp: apply_action_hit_def Let_def split: sum.splits prod.splits if_splits)

lemma apply_action_double_bet:
  "apply_action_double sh hand = Inr (sh', hand') \<Longrightarrow> length (cards hand) = 2 \<Longrightarrow>
   bet hand' = 2 * bet hand \<and> is_finished hand'"
  by (auto simp: apply_action_double_def Let_def split: sum.splits prod.splits if_splits)

lemma apply_action_split_bets:
  assumes "apply_action_split sh st i = Inr (sh', st')"
      and "bets_ok b (player_hands st)"
      and "bet (player_hands st ! i) = b"
  shows "bets_ok b (player_hands st')"
  using assms
  by (auto simp: apply_action_split_def Let_def
      split: if_splits sum.splits prod.splits
      intro!: bets_ok_insert bets_ok_update)

lemma hand_step_bets:
  assumes "hand_step policy dealer_up lg i st = Inr (brk, st')"
      and "i < length (player_hands st)"
      and "\<not> is_finished (player_hands st ! i)"
      and "bets_ok b (player_hands st)"
  shows "bets_ok b (player_hands st')"
proof -
  from assms have bi: "bet (player_hands st ! i) = b"
    by (simp add: bets_ok_unfinished)
  show ?thesis
    using assms(1,4) bi
    by (auto simp: hand_step_def set_hand_def Let_def apply_action_stand_def
        split: prod.splits if_splits sum.splits
        dest!: apply_action_hit_bet apply_action_double_bet
        dest: apply_action_split_bets
        intro!: bets_ok_update)
qed


lemma hand_loop_bets:
  "hand_loop policy dealer_up lg i st = Inr st' \<Longrightarrow> bets_ok b (player_hands st) \<Longrightarrow>
   bets_ok b (player_hands st')"
proof (induction policy dealer_up lg i st rule: hand_loop.induct)
  case (1 policy dealer_up lg i st)
  show ?case
  proof (cases "i \<ge> length (player_hands st) \<or> is_finished (player_hands st ! i)")
    case True
    with "1.prems" show ?thesis
      by (auto simp: hand_loop.simps [of policy dealer_up lg i st] split: if_splits)
  next
    case False
    then have inb: "i < length (player_hands st)" and nf: "\<not> is_finished (player_hands st ! i)"
      by auto
    from "1.prems"(1) inb nf obtain brk st1 where
      step: "hand_step policy dealer_up lg i st = Inr (brk, st1)" and
      rest: "(if brk then Inr st1 else hand_loop policy dealer_up lg i st1) = Inr st'"
      by (auto simp: hand_loop.simps [of policy dealer_up lg i st] split: sum.splits)
    note ok1 = hand_step_bets [OF step inb nf "1.prems"(2)]
    show ?thesis
    proof (cases brk)
      case True
      with rest ok1 show ?thesis by simp
    next
      case False
      with rest have "hand_loop policy dealer_up lg i st1 = Inr st'" by simp
      from "1.IH" [OF _ _ step refl False this ok1] inb nf show ?thesis
        by auto
    qed
  qed
qed

lemma round_loop_bets:
  "round_loop policy dealer_up lg i st = Inr st' \<Longrightarrow> bets_ok b (player_hands st) \<Longrightarrow>
   bets_ok b (player_hands st')"
proof (induction policy dealer_up lg i st rule: round_loop.induct)
  case (1 policy dealer_up lg i st)
  show ?case
  proof (cases "i < length (player_hands st)")
    case False
    with "1.prems" show ?thesis
      by (simp add: round_loop.simps [of policy dealer_up lg i st])
  next
    case inb: True
    show ?thesis
    proof (cases "is_finished (player_hands st ! i)")
      case True
      with inb "1.prems"(1) have "round_loop policy dealer_up lg (i + 1) st = Inr st'"
        by (simp add: round_loop.simps [of policy dealer_up lg i st])
      from "1.IH"(1) [OF inb True this "1.prems"(2)] show ?thesis .
    next
      case False
      with inb "1.prems"(1) obtain st1 where
        inner: "hand_loop policy dealer_up lg i st = Inr st1" and
        rest: "round_loop policy dealer_up lg (i + 1) st1 = Inr st'"
        by (auto simp: round_loop.simps [of policy dealer_up lg i st] split: sum.splits)
      from "1.IH"(2) [OF inb False inner rest hand_loop_bets [OF inner "1.prems"(2)]]
      show ?thesis .
    qed
  qed
qed

lemma settle_keeps_bet: "bet (fst (settle_hand_vs_dealer h dcards)) = bet h"
  by (auto simp: settle_hand_vs_dealer_def Let_def split: option.splits prod.splits)

lemma play_round_hands:
  assumes "play_round sh policy base_bet lg = Inr st"
  shows "(\<exists>h. player_hands st = [h] \<and> bet h = base_bet) \<or>
         (\<exists>du st0 st1 dcards' h.
            round_loop policy du lg 0 st0 = Inr st1 \<and>
            player_hands st0 = [h] \<and> bet h = base_bet \<and> \<not> is_finished h \<and>
            player_hands st = map (\<lambda>h. fst (settle_hand_vs_dealer h dcards')) (player_hands st1))"
proof -
  from assms obtain p1 p2 d1 d2 sh4 where
    body: "(let player_cards = [p1, p2];
            dcards = [d1, d2];
            player_hand = \<lparr>cards = player_cards, bet = base_bet,
                           is_finished = False, is_busted = False,
                           is_blackjack_flag = is_blackjack player_cards,
                           is_split_ace = False, result = None, meta = []\<rparr>;
            state = \<lparr>shoe = sh4, player_hands = [player_hand], dealer_cards = dcards,
                     initial_blackjack = is_blackjack_flag player_hand,
                     logs = (if lg then Some [] else None)\<rparr>;
            dealer_up = dcards ! 0;
            dealer_has_bj = is_blackjack dcards
        in if is_blackjack_flag player_hand \<or> dealer_has_bj then
             (let r = (if is_blackjack_flag player_hand \<and> \<not> dealer_has_bj
                       then base_bet * BLACKJACK_PAYOUT
                       else if dealer_has_bj \<and> \<not> is_blackjack_flag player_hand
                       then - base_bet
                       else 0)
              in Inr (set_hand state 0 (player_hand\<lparr>result := Some r\<rparr>)))
           else
            (case round_loop policy dealer_up lg 0 state of
               Inl e \<Rightarrow> Inl e
             | Inr st1 \<Rightarrow>
                (case (if list_ex (\<lambda>h. \<not> is_busted h) (player_hands st1)
                       then (case play_dealer (shoe st1) (dealer_cards st1) of
                               Inl e \<Rightarrow> Inl e
                             | Inr (sh', dcards') \<Rightarrow>
                                 Inr (st1\<lparr>shoe := sh', dealer_cards := dcards'\<rparr>))
                       else Inr st1) of
                   Inl e \<Rightarrow> Inl e
                 | Inr st2 \<Rightarrow>
                     Inr (st2\<lparr>player_hands :=
                            map (\<lambda>h. fst (settle_hand_vs_dealer h (dealer_cards st2)))
                                (player_hands st2)\<rparr>)))) = Inr st"
    unfolding play_round_def by (auto split: sum.splits prod.splits)
  show ?thesis
  proof (cases "is_blackjack [p1, p2] \<or> is_blackjack [d1, d2]")
    case True
    with body show ?thesis
      by (auto simp: Let_def set_hand_def)
  next
    case False
    with body obtain st1 dcards' where
      loop: "round_loop policy d1 lg 0
               \<lparr>shoe = sh4,
                player_hands = [\<lparr>cards = [p1, p2], bet = base_bet,
                           is_finished = False, is_busted = False,
                           is_blackjack_flag = is_blackjack [p1, p2],
                           is_split_ace = False, result = None, meta = []\<rparr>],
                dealer_cards = [d1, d2],
                initial_blackjack = is_blackjack [p1, p2],
                logs = (if lg then Some [] else None)\<rparr> = Inr st1"
      and st: "player_hands st =
                 map (\<lambda>h. fst (settle_hand_vs_dealer h dcards')) (player_hands st1)"
      by (simp add: Let_def split: sum.splits prod.splits if_splits) fastforce+
    have "\<exists>du st0 st1 dcards' h.
            round_loop policy du lg 0 st0 = Inr st1 \<and>
            player_hands st0 = [h] \<and> bet h = base_bet \<and> \<not> is_finished h \<and>
            player_hands st = map (\<lambda>h. fst (settle_hand_vs_dealer h dcards')) (player_hands st1)"
      apply (rule exI [of _ d1])
      apply (rule exI)
      apply (rule exI [of _ st1])
      apply (rule exI [of _ dcards'])
      apply (rule exI)
      apply (rule conjI [OF loop])
      apply (rule conjI, simp)
      apply (simp add: st)
      done
    then show ?thesis ..
  qed
qed

lemma play_round_bets:
  assumes "play_round sh policy base_bet lg = Inr st"
  shows "\<forall>h\<in>set (player_hands st). bet h = base_bet \<or> bet h = 2 * base_bet"
proof -
  from play_round_hands [OF assms] show ?thesis
  proof (elim disjE exE conjE)
    fix h assume "player_hands st = [h]" "bet h = base_bet"
    then show ?thesis by simp
  next
    fix du st0 st1 dcards' h
    assume loop: "round_loop policy du lg 0 st0 = Inr st1"
      and h: "player_hands st0 = [h]" "bet h = base_bet"
      and st: "player_hands st = map (\<lambda>h. fst (settle_hand_vs_dealer h dcards')) (player_hands st1)"
    from h have "bets_ok base_bet (player_hands st0)"
      by (simp add: bets_ok_def)
    from round_loop_bets [OF loop this] have "bets_ok base_bet (player_hands st1)" .
    then show ?thesis
      by (auto simp: st settle_keeps_bet bets_ok_def)
  qed
qed


lemma hand_step_invalid_double_is_hit:
  assumes "cur = player_hands rs ! i"
      and "length (cards cur) \<noteq> 2"
      and "hand_value (cards cur) = (tot, soft)"
      and "tot \<le> 21"
      and "ctx = \<lparr>player_total = tot, player_soft = soft,
                  ctx_can_split = can_split (cards cur), can_double = False,
                  ctx_hand_index = i, num_hands = length (player_hands rs)\<rparr>"
      and "upper (policy (cards cur) dealer_up ctx) = ''D''"
  shows "hand_step policy dealer_up lg i rs =
     (if shoe rs = [] then Inl ShoeEmpty
      else Inr (False,
        rs\<lparr>shoe := butlast (shoe rs),
           player_hands := (player_hands rs)[i :=
              (if fst (hand_value (cards cur @ [last (shoe rs)])) > 21
               then cur\<lparr>cards := cards cur @ [last (shoe rs)],
                      is_busted := True, is_finished := True\<rparr>
               else cur\<lparr>cards := cards cur @ [last (shoe rs)]\<rparr>)],
           logs := (if lg
                    then map_option (\<lambda>steps. steps @
                           [\<lparr>step_hand_index = i, step_cards = cards cur,
                             step_dealer_up = dealer_up, step_action = ''D'',
                             step_ctx = ctx\<rparr>]) (logs rs)
                    else logs rs)\<rparr>))"
  using assms
  by (auto simp: hand_step_def set_hand_def apply_action_hit_def draw_card_def Let_def
      split: prod.splits)

lemma hand_step_double_on_two_cards:
  assumes "cur = player_hands rs ! i"
      and "length (cards cur) = 2"
      and "hand_value (cards cur) = (tot, soft)"
      and "tot \<le> 21"
      and "ctx = \<lparr>player_total = tot, player_soft = soft,
                  ctx_can_split = can_split (cards cur), can_double = True,
                  ctx_hand_index = i, num_hands = length (player_hands rs)\<rparr>"
      and "upper (policy (cards cur) dealer_up ctx) = ''D''"
  shows "hand_step policy dealer_up lg i rs =
     (if shoe rs = [] then Inl ShoeEmpty
      else Inr (False,
        rs\<lparr>shoe := butlast (shoe rs),
           player_hands := (player_hands rs)[i :=
              (if fst (hand_value (cards cur @ [last (shoe rs)])) > 21
               then cur\<lparr>bet := bet cur * 2, cards := cards cur @ [last (shoe rs)],
                      is_busted := True, is_finished := True\<rparr>
               else cur\<lparr>bet := bet cur * 2, cards := cards cur @ [last (shoe rs)],
                      is_finished := True\<rparr>)],
           logs := (if lg
                    then map_option (\<lambda>steps. steps @
                           [\<lparr>step_hand_index = i, step_cards = cards cur,
                             step_dealer_up = dealer_up, step_action = ''D'',
                             step_ctx = ctx\<rparr>]) (logs rs)
                    else logs rs)\<rparr>))"
  using assms
  by (auto simp: hand_step_def set_hand_def apply_action_double_def draw_card_def Let_def
      split: prod.splits)


lemma hand_loop_invalid_double_is_hit:
  assumes "i < length (player_hands rs)"
      and "cur = player_hands rs ! i"
      and "\<not> is_finished cur"
      and "length (cards cur) \<noteq> 2"
      and "hand_value (cards cur) = (tot, soft)"
      and "tot \<le> 21"
      and "ctx = \<lparr>player_total = tot, player_soft = soft,
                  ctx_can_split = can_split (cards cur), can_double = False,
                  ctx_hand_index = i, num_hands = length (player_hands rs)\<rparr>"
      and "upper (policy (cards cur) dealer_up ctx) = ''D''"
  shows "hand_loop policy dealer_up lg i rs =
        (if shoe rs = [] then Inl ShoeEmpty
         else hand_loop policy dealer_up lg i
           (rs\<lparr>shoe := butlast (shoe rs),
           player_hands := (player_hands rs)[i :=
              (if fst (hand_value (cards cur @ [last (shoe rs)])) > 21
               then cur\<lparr>cards := cards cur @ [last (shoe rs)],
                      is_busted := True, is_finished := True\<rparr>
               else cur\<lparr>cards := cards cur @ [last (shoe rs)]\<rparr>)],
           logs := (if lg
                    then map_option (\<lambda>steps. steps @
                           [\<lparr>step_hand_index = i, step_cards = cards cur,
                             step_dealer_up = dealer_up, step_action = ''D'',
                             step_ctx = ctx\<rparr>]) (logs rs)
                    else logs rs)\<rparr>))"
  using assms(1-3)
    hand_step_invalid_double_is_hit
      [where policy = policy and dealer_up = dealer_up and lg = lg, OF assms(2,4-8)]
  by (subst hand_loop.simps) simp

text \<open>
  C9. Whenever \<^verbatim>\<open>play_round\<close> with base bet \<open>b\<close> returns a round state, every hand in
  it carries the bet \<open>b\<close> or \<open>2 * b\<close>. A Double on a hand that does not hold exactly two
  cards is a Hit: \<^verbatim>\<open>apply_action_double\<close> then equals \<^verbatim>\<open>apply_action_hit\<close>, which draws the
  last card of the shoe onto the hand and leaves the bet as it was. Inside a round the
  same holds for the decision itself: when the policy answers "D" on an unfinished hand
  without exactly two cards, the pass through the loop body draws the last card of the
  shoe onto the hand (marking it busted and finished above 21), changes nothing else of
  the hand, and the inner loop goes on from that state; on an empty shoe it fails with the
  exhaustion error. When the policy answers "D" on a hand of exactly two cards, the pass
  doubles the bet, draws one card and finishes the hand.
\<close>

theorem play_round_bets_base_or_doubled:
  "(play_round sh policy base_bet lg = Inr st \<longrightarrow>
      (\<forall>h\<in>set (player_hands st). bet h = base_bet \<or> bet h = 2 * base_bet)) \<and>
   (length (cards hand) \<noteq> 2 \<longrightarrow>
      apply_action_double sh hand = apply_action_hit sh hand \<and>
      (\<forall>sh' hand'. apply_action_double sh hand = Inr (sh', hand') \<longrightarrow>
         bet hand' = bet hand \<and> cards hand' = cards hand @ [last sh] \<and> sh' = butlast sh)) \<and>
   (i < length (player_hands rs) \<and> cur = player_hands rs ! i \<and> \<not> is_finished cur \<and>
    length (cards cur) \<noteq> 2 \<and> hand_value (cards cur) = (tot, soft) \<and> tot \<le> 21 \<and>
    ctx = \<lparr>player_total = tot, player_soft = soft,
            ctx_can_split = can_split (cards cur), can_double = False,
            ctx_hand_index = i, num_hands = length (player_hands rs)\<rparr> \<and>
    upper (policy (cards cur) dealer_up ctx) = ''D'' \<longrightarrow>
      hand_step policy dealer_up lg i rs =
        (if shoe rs = [] then Inl ShoeEmpty
         else Inr (False, rs\<lparr>shoe := butlast (shoe rs),
           player_hands := (player_hands rs)[i :=
              (if fst (hand_value (cards cur @ [last (shoe rs)])) > 21
               then cur\<lparr>cards := cards cur @ [last (shoe rs)],
                      is_busted := True, is_finished := True\<rparr>
               else cur\<lparr>cards := cards cur @ [last (shoe rs)]\<rparr>)],
           logs := (if lg
                    then map_option (\<lambda>steps. steps @
                           [\<lparr>step_hand_index = i, step_cards = cards cur,
                             step_dealer_up = dealer_up, step_action = ''D'',
                             step_ctx = ctx\<rparr>]) (logs rs)
                    else logs rs)\<rparr>)) \<and>
      hand_loop policy dealer_up lg i rs =
        (if shoe rs = [] then Inl ShoeEmpty
         else hand_loop policy dealer_up lg i
           (rs\<lparr>shoe := butlast (shoe rs),
           player_hands := (player_hands rs)[i :=
              (if fst (hand_value (cards cur @ [last (shoe rs)])) > 21
               then cur\<lparr>cards := cards cur @ [last (shoe rs)],
                      is_busted := True, is_finished := True\<rparr>
               else cur\<lparr>cards := cards cur @ [last (shoe rs)]\<rparr>)],
           logs := (if lg
                    then map_option (\<lambda>steps. steps @
                           [\<lparr>step_hand_index = i, step_cards = cards cur,
                             step_dealer_up = dealer_up, step_action = ''D'',
                             step_ctx = ctx\<rparr>]) (logs rs)
                    else logs rs)\<rparr>))) \<and>
   (i < length (player_hands rs) \<and> cur = player_hands rs ! i \<and> \<not> is_finished cur \<and>
    length (cards cur) = 2 \<and> hand_value (cards cur) = (tot, soft) \<and> tot \<le> 21 \<and>
    ctx = \<lparr>player_total = tot, player_soft = soft,
            ctx_can_split = can_split (cards cur), can_double = True,
            ctx_hand_index = i, num_hands = length (player_hands rs)\<rparr> \<and>
    upper (policy (cards cur) dealer_up ctx) = ''D'' \<longrightarrow>
      hand_step policy dealer_up lg i rs =
        (if shoe rs = [] then Inl ShoeEmpty
         else Inr (False, rs\<lparr>shoe := butlast (shoe rs),
           player_hands := (player_hands rs)[i :=
              (if fst (hand_value (cards cur @ [last (shoe rs)])) > 21
               then cur\<lparr>bet := bet cur * 2, cards := cards cur @ [last (shoe rs)],
                      is_busted := True, is_finished := True\<rparr>
               else cur\<lparr>bet := bet cur * 2, cards := cards cur @ [last (shoe rs)],
                      is_finished := True\<rparr>)],
           logs := (if lg
                    then map_option (\<lambda>steps. steps @
                           [\<lparr>step_hand_index = i, step_cards = cards cur,
                             step_dealer_up = dealer_up, step_action = ''D'',
                             step_ctx = ctx\<rparr>]) (logs rs)
                    else logs rs)\<rparr>)))"
proof -
  have round: "\<forall>h\<in>set (player_hands st). bet h = base_bet \<or> bet h = 2 * base_bet"
    if "play_round sh policy base_bet lg = Inr st"
    using that by (rule play_round_bets)
  have same: "apply_action_double sh hand = apply_action_hit sh hand"
    if "length (cards hand) \<noteq> 2"
    using that by (simp add: apply_action_double_def)
  have keep: "bet hand' = bet hand \<and> cards hand' = cards hand @ [last sh] \<and> sh' = butlast sh"
    if "apply_action_hit sh hand = Inr (sh', hand')" for sh' hand'
    using that
    by (auto simp: apply_action_hit_def draw_card_def Let_def split: if_splits prod.splits)
  have first: "(play_round sh policy base_bet lg = Inr st \<longrightarrow>
      (\<forall>h\<in>set (player_hands st). bet h = base_bet \<or> bet h = 2 * base_bet)) \<and>
   (length (cards hand) \<noteq> 2 \<longrightarrow>
      apply_action_double sh hand = apply_action_hit sh hand \<and>
      (\<forall>sh' hand'. apply_action_double sh hand = Inr (sh', hand') \<longrightarrow>
         bet hand' = bet hand \<and> cards hand' = cards hand @ [last sh] \<and> sh' = butlast sh))"
    using round same keep by metis
  have third: "hand_step policy dealer_up lg i rs =
        (if shoe rs = [] then Inl ShoeEmpty
         else Inr (False, rs\<lparr>shoe := butlast (shoe rs),
           player_hands := (player_hands rs)[i :=
              (if fst (hand_value (cards cur @ [last (shoe rs)])) > 21
               then cur\<lparr>cards := cards cur @ [last (shoe rs)],
                      is_busted := True, is_finished := True\<rparr>
               else cur\<lparr>cards := cards cur @ [last (shoe rs)]\<rparr>)],
           logs := (if lg
                    then map_option (\<lambda>steps. steps @
                           [\<lparr>step_hand_index = i, step_cards = cards cur,
                             step_dealer_up = dealer_up, step_action = ''D'',
                             step_ctx = ctx\<rparr>]) (logs rs)
                    else logs rs)\<rparr>)) \<and>
      hand_loop policy dealer_up lg i rs =
        (if shoe rs = [] then Inl ShoeEmpty
         else hand_loop policy dealer_up lg i
           (rs\<lparr>shoe := butlast (shoe rs),
           player_hands := (player_hands rs)[i :=
              (if fst (hand_value (cards cur @ [last (shoe rs)])) > 21
               then cur\<lparr>cards := cards cur @ [last (shoe rs)],
                      is_busted := True, is_finished := True\<rparr>
               else cur\<lparr>cards := cards cur @ [last (shoe rs)]\<rparr>)],
           logs := (if lg
                    then map_option (\<lambda>steps. steps @
                           [\<lparr>step_hand_index = i, step_cards = cards cur,
                             step_dealer_up = dealer_up, step_action = ''D'',
                             step_ctx = ctx\<rparr>]) (logs rs)
                    else logs rs)\<rparr>))"
    if p: "i < length (player_hands rs)" "cur = player_hands rs ! i" "\<not> is_finished cur"
      "length (cards cur) \<noteq> 2" "hand_value (cards cur) = (tot, soft)" "tot \<le> 21"
      "ctx = \<lparr>player_total = tot, player_soft = soft,
              ctx_can_split = can_split (cards cur), can_double = False,
              ctx_hand_index = i, num_hands = length (player_hands rs)\<rparr>"
      "upper (policy (cards cur) dealer_up ctx) = ''D''"
    using hand_step_invalid_double_is_hit
        [where policy = policy and dealer_up = dealer_up and lg = lg, OF p(2,4-8)]
      hand_loop_invalid_double_is_hit
        [where policy = policy and dealer_up = dealer_up and lg = lg, OF p]
    by (intro conjI)
  have fourth: "hand_step policy dealer_up lg i rs =
        (if shoe rs = [] then Inl ShoeEmpty
         else Inr (False, rs\<lparr>shoe := butlast (shoe rs),
           player_hands := (player_hands rs)[i :=
              (if fst (hand_value (cards cur @ [last (shoe rs)])) > 21
               then cur\<lparr>bet := bet cur * 2, cards := cards cur @ [last (shoe rs)],
                      is_busted := True, is_finished := True\<rparr>
               else cur\<lparr>bet := bet cur * 2, cards := cards cur @ [last (shoe rs)],
                      is_finished := True\<rparr>)],
           logs := (if lg
                    then map_option (\<lambda>steps. steps @
                           [\<lparr>step_hand_index = i, step_cards = cards cur,
                             step_dealer_up = dealer_up, step_action = ''D'',
                             step_ctx = ctx\<rparr>]) (logs rs)
                    else logs rs)\<rparr>))"
    if p: "i < length (player_hands rs)" "cur = player_hands rs ! i" "\<not> is_finished cur"
      "length (cards cur) = 2" "hand_value (cards cur) = (tot, soft)" "tot \<le> 21"
      "ctx = \<lparr>player_total = tot, player_soft = soft,
              ctx_can_split = can_split (cards cur), can_double = True,
              ctx_hand_index = i, num_hands = length (player_hands rs)\<rparr>"
      "upper (policy (cards cur) dealer_up ctx) = ''D''"
    using hand_step_double_on_two_cards
        [where policy = policy and dealer_up = dealer_up and lg = lg, OF p(2,4-8)] .
  from first third fourth show ?thesis
    by blast
qed

theorem play_round_bets_base_or_doubled_witness:
  "play_round [10, 7, 10, 6, 5] (\<lambda>cs du ctx. ''d'') 5 False =
     Inr \<lparr>shoe = [],
          player_hands = [\<lparr>cards = [5, 6, 10], bet = 10, is_finished = True,
             is_busted = False, is_blackjack_flag = False, is_split_ace = False,
             result = Some 10, meta = []\<rparr>],
          dealer_cards = [10, 7], initial_blackjack = False, logs = None\<rparr> \<and>
   length (cards \<lparr>cards = [5, 6, 2], bet = 5, is_finished = False,
             is_busted = False, is_blackjack_flag = False, is_split_ace = False,
             result = None, meta = []\<rparr>) \<noteq> 2 \<and>
   apply_action_double [4, 3]
       \<lparr>cards = [5, 6, 2], bet = 5, is_finished = False,
             is_busted = False, is_blackjack_flag = False, is_split_ace = False,
             result = None, meta = []\<rparr> =
     Inr ([4], \<lparr>cards = [5, 6, 2, 3], bet = 5, is_finished = False,
             is_busted = False, is_blackjack_flag = False, is_split_ace = False,
             result = None, meta = []\<rparr>) \<and>
   list_all (\<lambda>h. bet h = 5 \<or> bet h = 2 * 5)
     (player_hands \<lparr>shoe = [],
          player_hands = [\<lparr>cards = [5, 6, 10], bet = 10, is_finished = True,
             is_busted = False, is_blackjack_flag = False, is_split_ace = False,
             result = Some 10, meta = []\<rparr>],
          dealer_cards = [10, 7], initial_blackjack = False, logs = None\<rparr>) \<and>
   hand_step (\<lambda>cs du ctx. ''d'') 10 True 0
     \<lparr>shoe = [4, 3],
      player_hands = [\<lparr>cards = [5, 6, 2], bet = 5, is_finished = False,
             is_busted = False, is_blackjack_flag = False, is_split_ace = False,
             result = None, meta = []\<rparr>],
      dealer_cards = [10, 7], initial_blackjack = False, logs = Some []\<rparr> =
     Inr (False,
       \<lparr>shoe = [4],
        player_hands = [\<lparr>cards = [5, 6, 2, 3], bet = 5, is_finished = False,
             is_busted = False, is_blackjack_flag = False, is_split_ace = False,
             result = None, meta = []\<rparr>],
        dealer_cards = [10, 7], initial_blackjack = False,
        logs = Some [\<lparr>step_hand_index = 0, step_cards = [5, 6, 2], step_dealer_up = 10,
                      step_action = ''D'',
                      step_ctx = \<lparr>player_total = 13, player_soft = False,
                                   ctx_can_split = False, can_double = False,
                                   ctx_hand_index = 0, num_hands = 1\<rparr>\<rparr>]\<rparr>) \<and>
   hand_step (\<lambda>cs du ctx. ''d'') 10 False 0
     \<lparr>shoe = [4, 10],
      player_hands = [\<lparr>cards = [5, 6], bet = 5, is_finished = False,
             is_busted = False, is_blackjack_flag = False, is_split_ace = False,
             result = None, meta = []\<rparr>],
      dealer_cards = [10, 7], initial_blackjack = False, logs = None\<rparr> =
     Inr (False,
       \<lparr>shoe = [4],
        player_hands = [\<lparr>cards = [5, 6, 10], bet = 10, is_finished = True,
             is_busted = False, is_blackjack_flag = False, is_split_ace = False,
             result = None, meta = []\<rparr>],
        dealer_cards = [10, 7], initial_blackjack = False, logs = None\<rparr>) \<and>
   play_round [9, 3, 2, 7, 10, 5, 4]
       (\<lambda>cs du ctx. if length cs = 2 then ''h'' else if length cs = 3 then ''D'' else ''R'')
       1 False =
     Inr \<lparr>shoe = [9],
          player_hands = [\<lparr>cards = [4, 5, 2, 3], bet = 1, is_finished = True,
             is_busted = False, is_blackjack_flag = False, is_split_ace = False,
             result = Some (- 1), meta = []\<rparr>],
          dealer_cards = [10, 7], initial_blackjack = False, logs = None\<rparr>"
proof -
  let ?h = "\<lparr>cards = [5, 6, 2], bet = 5, is_finished = False,
             is_busted = False, is_blackjack_flag = False, is_split_ace = False,
             result = None, meta = []\<rparr>"
  let ?h2 = "\<lparr>cards = [5, 6], bet = 5, is_finished = False,
             is_busted = False, is_blackjack_flag = False, is_split_ace = False,
             result = None, meta = []\<rparr>"
  let ?st = "\<lparr>shoe = [],
          player_hands = [\<lparr>cards = [5, 6, 10], bet = 10, is_finished = True,
             is_busted = False, is_blackjack_flag = False, is_split_ace = False,
             result = Some 10, meta = []\<rparr>],
          dealer_cards = [10, 7], initial_blackjack = False, logs = None\<rparr>"
  let ?rs = "\<lparr>shoe = [4, 3], player_hands = [?h],
      dealer_cards = [10, 7], initial_blackjack = False, logs = Some []\<rparr>"
  let ?rs2 = "\<lparr>shoe = [4, 10], player_hands = [?h2],
      dealer_cards = [10, 7], initial_blackjack = False, logs = None\<rparr>"
  let ?ctx = "\<lparr>player_total = 13, player_soft = False,
                ctx_can_split = can_split (cards ?h), can_double = False,
                ctx_hand_index = 0, num_hands = length (player_hands ?rs)\<rparr>"
  let ?ctx2 = "\<lparr>player_total = 11, player_soft = False,
                ctx_can_split = can_split (cards ?h2), can_double = True,
                ctx_hand_index = 0, num_hands = length (player_hands ?rs2)\<rparr>"
  let ?pol = "\<lambda>(cs :: int list) (du :: int) (ctx :: DecisionContext). ''d''"
  have run: "play_round [10, 7, 10, 6, 5] ?pol 5 False = Inr ?st"
    by code_simp
  have round3: "play_round [9, 3, 2, 7, 10, 5, 4]
       (\<lambda>cs du ctx. if length cs = 2 then ''h'' else if length cs = 3 then ''D'' else ''R'')
       1 False =
     Inr \<lparr>shoe = [9],
          player_hands = [\<lparr>cards = [4, 5, 2, 3], bet = 1, is_finished = True,
             is_busted = False, is_blackjack_flag = False, is_split_ace = False,
             result = Some (- 1), meta = []\<rparr>],
          dealer_cards = [10, 7], initial_blackjack = False, logs = None\<rparr>"
    by code_simp
  have hit: "apply_action_hit [4, 3] ?h =
     Inr ([4], \<lparr>cards = [5, 6, 2, 3], bet = 5, is_finished = False,
             is_busted = False, is_blackjack_flag = False, is_split_ace = False,
             result = None, meta = []\<rparr>)"
    by (simp add: apply_action_hit_def draw_card_def hand_value_def hand_value_loop.simps)
  have len: "length (cards ?h) \<noteq> 2"
    by simp
  have up: "upper ''d'' = ''D''"
    by code_simp
  have vals: "hand_value [5, 6, 2] = (13, False)" "hand_value [5, 6, 2, 3] = (16, False)"
    "hand_value [5, 6] = (11, False)" "hand_value [5, 6, 10] = (21, False)"
    by (simp_all add: hand_value_def hand_value_loop.simps)
  have pre3: "0 < length (player_hands ?rs) \<and> ?h = player_hands ?rs ! 0 \<and> \<not> is_finished ?h \<and>
    length (cards ?h) \<noteq> 2 \<and> hand_value (cards ?h) = (13, False) \<and> (13 :: int) \<le> 21 \<and>
    ?ctx = ?ctx \<and> upper (?pol (cards ?h) 10 ?ctx) = ''D''"
    by (simp add: vals up)
  have pre4: "0 < length (player_hands ?rs2) \<and> ?h2 = player_hands ?rs2 ! 0 \<and> \<not> is_finished ?h2 \<and>
    length (cards ?h2) = 2 \<and> hand_value (cards ?h2) = (11, False) \<and> (11 :: int) \<le> 21 \<and>
    ?ctx2 = ?ctx2 \<and> upper (?pol (cards ?h2) 10 ?ctx2) = ''D''"
    by (simp add: vals up)
  note inst = play_round_bets_base_or_doubled
      [where sh = "[4, 3]" and policy = ?pol and base_bet = 5
         and lg = False and st = ?st and hand = ?h and rs = ?rs2 and i = 0 and cur = ?h2
         and tot = 11 and soft = False and ctx = ?ctx2 and dealer_up = 10]
  from inst [THEN conjunct2, THEN conjunct1, THEN mp, OF len, THEN conjunct1] hit
  have dbl: "apply_action_double [4, 3] ?h =
     Inr ([4], \<lparr>cards = [5, 6, 2, 3], bet = 5, is_finished = False,
             is_busted = False, is_blackjack_flag = False, is_split_ace = False,
             result = None, meta = []\<rparr>)"
    by simp
  from inst [THEN conjunct2, THEN conjunct2, THEN conjunct2, THEN mp, OF pre4]
  have step4: "hand_step ?pol 10 False 0 ?rs2 =
     Inr (False,
       \<lparr>shoe = [4],
        player_hands = [\<lparr>cards = [5, 6, 10], bet = 10, is_finished = True,
             is_busted = False, is_blackjack_flag = False, is_split_ace = False,
             result = None, meta = []\<rparr>],
        dealer_cards = [10, 7], initial_blackjack = False, logs = None\<rparr>)"
    by (simp add: vals)
  note inst1 = play_round_bets_base_or_doubled
      [where sh = "[10, 7, 10, 6, 5]" and policy = ?pol and base_bet = 5
         and lg = True and hand = ?h and rs = ?rs and i = 0 and cur = ?h
         and tot = 13 and soft = False and ctx = ?ctx and dealer_up = 10]
  from inst1 [THEN conjunct2, THEN conjunct2, THEN conjunct1, THEN mp, OF pre3, THEN conjunct1]
  have step3: "hand_step ?pol 10 True 0 ?rs =
     Inr (False,
       \<lparr>shoe = [4],
        player_hands = [\<lparr>cards = [5, 6, 2, 3], bet = 5, is_finished = False,
             is_busted = False, is_blackjack_flag = False, is_split_ace = False,
             result = None, meta = []\<rparr>],
        dealer_cards = [10, 7], initial_blackjack = False,
        logs = Some [\<lparr>step_hand_index = 0, step_cards = [5, 6, 2], step_dealer_up = 10,
                      step_action = ''D'',
                      step_ctx = \<lparr>player_total = 13, player_soft = False,
                                   ctx_can_split = False, can_double = False,
                                   ctx_hand_index = 0, num_hands = 1\<rparr>\<rparr>]\<rparr>)"
    by (simp add: vals can_split_def)
  note inst2 = play_round_bets_base_or_doubled
      [where sh = "[10, 7, 10, 6, 5]" and policy = ?pol and base_bet = 5
         and lg = False and st = ?st]
  from inst2 [THEN conjunct1, THEN mp, OF run]
  have bets: "list_all (\<lambda>h. bet h = 5 \<or> bet h = 2 * 5) (player_hands ?st)"
    by (simp only: list_all_iff)
  from run len dbl bets step3 step4 round3 show ?thesis
    by (intro conjI)
qed

section \<open>A two-card 21 after a split\<close>

lemma nth_split_first:
  "i < length hs \<Longrightarrow> (take i hs @ [h1, h2] @ drop (Suc i) hs) ! i = h1"
  by (simp add: nth_append)

lemma nth_split_second:
  "i < length hs \<Longrightarrow> (take i hs @ [h1, h2] @ drop (Suc i) hs) ! Suc i = h2"
  by (simp add: nth_append)

text \<open>
  C10, as amended. A successful split of a pair (below the split cap, two cards in the
  shoe) leaves the redealt acting hand and the new hand with their natural flag set
  whenever their two cards total 21. For such a hand, unsettled and not busted,
  \<^verbatim>\<open>settle_hand_vs_dealer\<close> pays 1.5 times its bet when the dealer's total is at most 21
  and the dealer does not hold a two-card 21, and pays the plain bet when the dealer's
  total exceeds 21.
\<close>

theorem split_21_paid_as_natural_unless_dealer_busts:
  assumes "i < length (player_hands st)"
      and "cards (player_hands st ! i) = [c, c]"
      and "length (filter (\<lambda>h. meta_get (meta h) ''from_split'' False) (player_hands st))
             < MAX_SPLITS"
      and "result (player_hands st ! i) = None"
      and "\<not> is_busted (player_hands st ! i)"
  shows "\<exists>st'. apply_action_split (rest @ [c2, c1]) st i = Inr (rest, st') \<and>
     cards (player_hands st' ! i) = [c, c1] \<and>
     cards (player_hands st' ! Suc i) = [c, c2] \<and>
     (\<forall>h. (h = player_hands st' ! i \<or> h = player_hands st' ! Suc i) \<and>
           fst (hand_value (cards h)) = 21 \<longrightarrow>
        is_blackjack_flag h \<and>
        (fst (hand_value dcards) \<le> 21 \<and>
         \<not> (length dcards = 2 \<and> fst (hand_value dcards) = 21) \<longrightarrow>
           settle_hand_vs_dealer h dcards
             = (h\<lparr>result := Some (3 / 2 * bet h)\<rparr>, 3 / 2 * bet h)) \<and>
        (fst (hand_value dcards) > 21 \<longrightarrow>
           settle_hand_vs_dealer h dcards = (h\<lparr>result := Some (bet h)\<rparr>, bet h)))"
proof -
  let ?hs = "player_hands st"
  let ?h1 = "(?hs ! i)\<lparr>cards := [c, c1],
           is_blackjack_flag := is_blackjack [c, c1],
           meta := AList.update ''from_split'' True (meta (?hs ! i)),
           is_split_ace := (c = 11 \<or> is_split_ace (?hs ! i)),
           is_finished := (c = 11 \<or> is_finished (?hs ! i))\<rparr>"
  let ?h2 = "\<lparr>cards = [c, c2], bet = bet (?hs ! i), is_finished = (c = 11),
          is_busted = False, is_blackjack_flag = is_blackjack [c, c2],
          is_split_ace = (c = 11), result = None, meta = [(''from_split'', True)]\<rparr>"
  let ?st' = "st\<lparr>player_hands := take i ?hs @ [?h1, ?h2] @ drop (Suc i) ?hs\<rparr>"
  have run: "apply_action_split (rest @ [c2, c1]) st i = Inr (rest, ?st')"
    using assms(1-3) by (rule split_of_pair)
  have n1: "player_hands ?st' ! i = ?h1" and n2: "player_hands ?st' ! Suc i = ?h2"
    using assms(1) by (simp_all add: nth_split_first nth_split_second del: append.simps)
  have pay: "is_blackjack_flag h \<and>
        (fst (hand_value dcards) \<le> 21 \<and>
         \<not> (length dcards = 2 \<and> fst (hand_value dcards) = 21) \<longrightarrow>
           settle_hand_vs_dealer h dcards
             = (h\<lparr>result := Some (3 / 2 * bet h)\<rparr>, 3 / 2 * bet h)) \<and>
        (fst (hand_value dcards) > 21 \<longrightarrow>
           settle_hand_vs_dealer h dcards = (h\<lparr>result := Some (bet h)\<rparr>, bet h))"
    if h: "h = ?h1 \<or> h = ?h2" and v: "fst (hand_value (cards h)) = 21" for h
  proof -
    from h v have flag: "is_blackjack_flag h"
      by (auto simp: is_blackjack_def)
    from h assms(4,5) have un: "result h = None" "\<not> is_busted h"
      by auto
    from flag un show ?thesis
      by (simp add: settle_unsettled settle_rule_spec_def Let_def)
  qed
  show ?thesis
    apply (rule exI [of _ ?st'])
    apply (intro conjI)
       apply (rule run)
      apply (simp only: n1, simp)
     apply (simp only: n2, simp)
    apply (simp only: n1 n2)
    using pay apply blast
    done
qed

theorem split_21_paid_as_natural_unless_dealer_busts_witness:
  "apply_action_split ([] @ [11, 11])
     \<lparr>shoe = [11, 11],
      player_hands = [\<lparr>cards = [10, 10], bet = 2, is_finished = False, is_busted = False,
                       is_blackjack_flag = False, is_split_ace = False, result = None,
                       meta = []\<rparr>],
      dealer_cards = [10, 7], initial_blackjack = False, logs = None\<rparr> 0 =
   Inr ([],
     \<lparr>shoe = [11, 11],
      player_hands = [\<lparr>cards = [10, 11], bet = 2, is_finished = False, is_busted = False,
                       is_blackjack_flag = True, is_split_ace = False, result = None,
                       meta = [(''from_split'', True)]\<rparr>,
                      \<lparr>cards = [10, 11], bet = 2, is_finished = False, is_busted = False,
                       is_blackjack_flag = True, is_split_ace = False, result = None,
                       meta = [(''from_split'', True)]\<rparr>],
      dealer_cards = [10, 7], initial_blackjack = False, logs = None\<rparr>) \<and>
   settle_hand_vs_dealer
      \<lparr>cards = [10, 11], bet = 2, is_finished = False, is_busted = False,
       is_blackjack_flag = True, is_split_ace = False, result = None,
       meta = [(''from_split'', True)]\<rparr> [10, 7] =
     (\<lparr>cards = [10, 11], bet = 2, is_finished = False, is_busted = False,
       is_blackjack_flag = True, is_split_ace = False, result = Some 3,
       meta = [(''from_split'', True)]\<rparr>, 3)"
proof -
  let ?st = "\<lparr>shoe = [11, 11],
      player_hands = [\<lparr>cards = [10, 10], bet = 2, is_finished = False, is_busted = False,
                       is_blackjack_flag = False, is_split_ace = False, result = None,
                       meta = []\<rparr>],
      dealer_cards = [10, 7], initial_blackjack = False, logs = None\<rparr>"
  let ?h = "\<lparr>cards = [10, 11], bet = 2, is_finished = False, is_busted = False,
       is_blackjack_flag = True, is_split_ace = False, result = None,
       meta = [(''from_split'', True)]\<rparr>"
  let ?st' = "\<lparr>shoe = [11, 11], player_hands = [?h, ?h],
      dealer_cards = [10, 7], initial_blackjack = False, logs = None\<rparr>"
  have run: "apply_action_split ([] @ [11, 11]) ?st 0 = Inr ([], ?st')"
    by code_simp
  have pre: "0 < length (player_hands ?st)"
    "cards (player_hands ?st ! 0) = [10, 10]"
    "length (filter (\<lambda>h. meta_get (meta h) ''from_split'' False) (player_hands ?st))
       < MAX_SPLITS"
    "result (player_hands ?st ! 0) = None"
    "\<not> is_busted (player_hands ?st ! 0)"
    by (simp_all add: meta_get_def MAX_SPLITS_def)
  have vals: "fst (hand_value [10, 11]) = 21" "fst (hand_value [10, 7]) = 17"
    by (simp_all add: hand_value_def hand_value_loop.simps)
  from split_21_paid_as_natural_unless_dealer_busts
         [OF pre, where rest = "[]" and ?c1.0 = 11 and ?c2.0 = 11 and dcards = "[10, 7]"]
  obtain st' where st': "apply_action_split ([] @ [11, 11]) ?st 0 = Inr ([], st')"
    and pay: "\<forall>h. (h = player_hands st' ! 0 \<or> h = player_hands st' ! Suc 0) \<and>
           fst (hand_value (cards h)) = 21 \<longrightarrow>
        is_blackjack_flag h \<and>
        (fst (hand_value [10, 7]) \<le> 21 \<and>
         \<not> (length [10, 7 :: int] = 2 \<and> fst (hand_value [10, 7]) = 21) \<longrightarrow>
           settle_hand_vs_dealer h [10, 7]
             = (h\<lparr>result := Some (3 / 2 * bet h)\<rparr>, 3 / 2 * bet h)) \<and>
        (fst (hand_value [10, 7]) > 21 \<longrightarrow>
           settle_hand_vs_dealer h [10, 7] = (h\<lparr>result := Some (bet h)\<rparr>, bet h))"
    by blast
  from st' run have eq: "st' = ?st'" by simp
  from pay [rule_format, of ?h] eq vals
  have "settle_hand_vs_dealer ?h [10, 7] = (?h\<lparr>result := Some (3 / 2 * bet ?h)\<rparr>, 3 / 2 * bet ?h)"
    by simp
  then have "settle_hand_vs_dealer ?h [10, 7] = (?h\<lparr>result := Some 3\<rparr>, 3)"
    by simp
  with run show ?thesis
    by simp
qed

text \<open>
  C10, as stated, fails when the dealer busts: splitting a pair of tens into two hands
  of a ten and an Ace sets the natural flag of both, the hands are not busted and the
  dealer's three cards 10, 6, 10 are not a two-card 21, yet the settlement pays the bet
  of 2 and not 1.5 times the bet.
\<close>

theorem split_21_dealer_bust_counterexample:
  "apply_action_split [11, 11]
     \<lparr>shoe = [11, 11],
      player_hands = [\<lparr>cards = [10, 10], bet = 2, is_finished = False, is_busted = False,
                       is_blackjack_flag = False, is_split_ace = False, result = None,
                       meta = []\<rparr>],
      dealer_cards = [10, 6], initial_blackjack = False, logs = None\<rparr> 0 =
   Inr ([],
     \<lparr>shoe = [11, 11],
      player_hands = [\<lparr>cards = [10, 11], bet = 2, is_finished = False, is_busted = False,
                       is_blackjack_flag = True, is_split_ace = False, result = None,
                       meta = [(''from_split'', True)]\<rparr>,
                      \<lparr>cards = [10, 11], bet = 2, is_finished = False, is_busted = False,
                       is_blackjack_flag = True, is_split_ace = False, result = None,
                       meta = [(''from_split'', True)]\<rparr>],
      dealer_cards = [10, 6], initial_blackjack = False, logs = None\<rparr>) \<and>
   fst (hand_value [10, 11]) = 21 \<and>
   \<not> (length [10, 6, 10 :: int] = 2 \<and> fst (hand_value [10, 6, 10]) = 21) \<and>
   snd (settle_hand_vs_dealer
          \<lparr>cards = [10, 11], bet = 2, is_finished = False, is_busted = False,
           is_blackjack_flag = True, is_split_ace = False, result = None,
           meta = [(''from_split'', True)]\<rparr> [10, 6, 10]) = 2 \<and>
   snd (settle_hand_vs_dealer
          \<lparr>cards = [10, 11], bet = 2, is_finished = False, is_busted = False,
           is_blackjack_flag = True, is_split_ace = False, result = None,
           meta = [(''from_split'', True)]\<rparr> [10, 6, 10]) \<noteq> 3 / 2 * 2"
  by code_simp

section \<open>The hand list after a split\<close>

lemma apply_action_split_prefix:
  "apply_action_split sh st i = Inr (sh', st') \<Longrightarrow>
   take i (player_hands st') = take i (player_hands st)"
  by (auto simp: apply_action_split_def list_insert_def Let_def
      split: if_splits sum.splits prod.splits)

lemma hand_step_prefix:
  "hand_step policy dealer_up lg i st = Inr (brk, st') \<Longrightarrow>
   take i (player_hands st') = take i (player_hands st)"
  by (auto simp: hand_step_def set_hand_def Let_def
      split: prod.splits if_splits sum.splits
      dest!: apply_action_split_prefix)

lemma hand_loop_prefix:
  "hand_loop policy dealer_up lg i st = Inr st' \<Longrightarrow>
   take i (player_hands st') = take i (player_hands st)"
proof (induction policy dealer_up lg i st rule: hand_loop.induct)
  case (1 policy dealer_up lg i st)
  show ?case
  proof (cases "i \<ge> length (player_hands st) \<or> is_finished (player_hands st ! i)")
    case True
    with "1.prems" show ?thesis
      by (auto simp: hand_loop.simps [of policy dealer_up lg i st] split: if_splits)
  next
    case False
    then have inb: "i < length (player_hands st)" and nf: "\<not> is_finished (player_hands st ! i)"
      by auto
    from "1.prems"(1) inb nf obtain brk st1 where
      step: "hand_step policy dealer_up lg i st = Inr (brk, st1)" and
      rest: "(if brk then Inr st1 else hand_loop policy dealer_up lg i st1) = Inr st'"
      by (auto simp: hand_loop.simps [of policy dealer_up lg i st] split: sum.splits)
    note p1 = hand_step_prefix [OF step]
    show ?thesis
    proof (cases brk)
      case True
      with rest p1 show ?thesis by simp
    next
      case False
      with rest have "hand_loop policy dealer_up lg i st1 = Inr st'" by simp
      from "1.IH" [OF _ _ step refl False this] inb nf p1 show ?thesis
        by auto
    qed
  qed
qed

lemma round_loop_prefix:
  "round_loop policy dealer_up lg i st = Inr st' \<Longrightarrow>
   take i (player_hands st') = take i (player_hands st)"
proof (induction policy dealer_up lg i st rule: round_loop.induct)
  case (1 policy dealer_up lg i st)
  show ?case
  proof (cases "i < length (player_hands st)")
    case False
    with "1.prems" show ?thesis
      by (simp add: round_loop.simps [of policy dealer_up lg i st])
  next
    case inb: True
    have shorten: "take i xs = take i ys" if "take (i + 1) xs = take (i + 1) ys"
      for xs ys :: "HandState list"
    proof -
      have "take i xs = take i (take (i + 1) xs)" by simp
      also have "\<dots> = take i (take (i + 1) ys)" using that by simp
      finally show ?thesis by simp
    qed
    show ?thesis
    proof (cases "is_finished (player_hands st ! i)")
      case True
      with inb "1.prems"(1) have "round_loop policy dealer_up lg (i + 1) st = Inr st'"
        by (simp add: round_loop.simps [of policy dealer_up lg i st])
      from "1.IH"(1) [OF inb True this] show ?thesis
        by (rule shorten)
    next
      case False
      with inb "1.prems"(1) obtain st1 where
        inner: "hand_loop policy dealer_up lg i st = Inr st1" and
        rest: "round_loop policy dealer_up lg (i + 1) st1 = Inr st'"
        by (auto simp: round_loop.simps [of policy dealer_up lg i st] split: sum.splits)
      from "1.IH"(2) [OF inb False inner rest]
      have "take i (player_hands st') = take i (player_hands st1)"
        by (rule shorten)
      with hand_loop_prefix [OF inner] show ?thesis by simp
    qed
  qed
qed

lemma pair_value: "c \<noteq> 11 \<Longrightarrow> hand_value [c, c] = (2 * c, False)"
  by (simp add: hand_value_def hand_value_loop.simps)

lemma pair_not_natural: "c \<noteq> 11 \<Longrightarrow> \<not> is_blackjack [c, c]"
  by (simp add: is_blackjack_def pair_value)

lemma split_round_continues_at_next_hand:
  assumes "c \<noteq> 11" and "2 * c \<le> 21"
      and "upper (policy [c, c] d1
             \<lparr>player_total = 2 * c, player_soft = False, ctx_can_split = True,
              can_double = True, ctx_hand_index = 0, num_hands = 1\<rparr>) = ''P''"
  shows "round_loop policy d1 lg 0
           \<lparr>shoe = rest @ [c2, c1],
            player_hands = [\<lparr>cards = [c, c], bet = base_bet, is_finished = False,
                             is_busted = False, is_blackjack_flag = False,
                             is_split_ace = False, result = None, meta = []\<rparr>],
            dealer_cards = [d1, d2], initial_blackjack = False,
            logs = (if lg then Some [] else None)\<rparr>
         = round_loop policy d1 lg 1
            \<lparr>shoe = rest,
            player_hands =
              [\<lparr>cards = [c, c1], bet = base_bet, is_finished = False,
                is_busted = False, is_blackjack_flag = is_blackjack [c, c1],
                is_split_ace = False, result = None, meta = [(''from_split'', True)]\<rparr>,
               \<lparr>cards = [c, c2], bet = base_bet, is_finished = False,
                is_busted = False, is_blackjack_flag = is_blackjack [c, c2],
                is_split_ace = False, result = None, meta = [(''from_split'', True)]\<rparr>],
            dealer_cards = [d1, d2], initial_blackjack = False,
            logs = (if lg then Some
              [\<lparr>step_hand_index = 0, step_cards = [c, c], step_dealer_up = d1,
                step_action = ''P'',
                step_ctx = \<lparr>player_total = 2 * c, player_soft = False, ctx_can_split = True,
                  can_double = True, ctx_hand_index = 0, num_hands = 1\<rparr>\<rparr>] else None)\<rparr>"
  using assms
  by (subst round_loop.simps)
     (simp add: hand_loop.simps hand_step_def pair_value can_split_def
       apply_action_split_def meta_get_def MAX_SPLITS_def draw_card_snoc draw_card_snoc2
       list_insert_def Let_def)


lemma settle_keeps_flags:
  "cards (fst (settle_hand_vs_dealer h dcards)) = cards h \<and>
   is_finished (fst (settle_hand_vs_dealer h dcards)) = is_finished h"
  by (auto simp: settle_hand_vs_dealer_def Let_def split: option.splits prod.splits)

text \<open>
  Whenever the first decision on a dealt pair other than Aces is "P", the redealt hand at
  index 0 is never visited again: the round, if it returns, returns that hand with its
  two cards and \<open>is_finished = False\<close>, whatever the policy answers afterwards.
\<close>

lemma play_round_split_never_revisits_acting_hand:
  assumes "c \<noteq> 11" and "2 * c \<le> 21"
      and "\<not> is_blackjack [d1, d2]"
      and "upper (policy [c, c] d1
             \<lparr>player_total = 2 * c, player_soft = False, ctx_can_split = True,
              can_double = True, ctx_hand_index = 0, num_hands = 1\<rparr>) = ''P''"
      and "play_round (rest @ [c2, c1, d2, d1, c, c]) policy base_bet lg = Inr st"
  shows "cards (player_hands st ! 0) = [c, c1] \<and> \<not> is_finished (player_hands st ! 0)"
proof -
  let ?h0 = "\<lparr>cards = [c, c1], bet = base_bet, is_finished = False,
                is_busted = False, is_blackjack_flag = is_blackjack [c, c1],
                is_split_ace = False, result = None, meta = [(''from_split'', True)]\<rparr>"
  let ?h1 = "\<lparr>cards = [c, c2], bet = base_bet, is_finished = False,
                is_busted = False, is_blackjack_flag = is_blackjack [c, c2],
                is_split_ace = False, result = None, meta = [(''from_split'', True)]\<rparr>"
  let ?st1 = "\<lparr>shoe = rest, player_hands = [?h0, ?h1],
            dealer_cards = [d1, d2], initial_blackjack = False,
            logs = (if lg then Some
              [\<lparr>step_hand_index = 0, step_cards = [c, c], step_dealer_up = d1,
                step_action = ''P'',
                step_ctx = \<lparr>player_total = 2 * c, player_soft = False, ctx_can_split = True,
                  can_double = True, ctx_hand_index = 0, num_hands = 1\<rparr>\<rparr>] else None)\<rparr>"
  from assms obtain st2 dcards' where
    loop: "round_loop policy d1 lg 1 ?st1 = Inr st2" and
    st: "player_hands st = map (\<lambda>h. fst (settle_hand_vs_dealer h dcards')) (player_hands st2)"
    by (simp add: play_round_def draw_card_def butlast_append pair_not_natural
          split_round_continues_at_next_hand [where rest = rest and ?c1.0 = c1 and ?c2.0 = c2]
          split: sum.splits if_splits prod.splits) fastforce+
  from round_loop_prefix [OF loop] have "take 1 (player_hands st2) = [?h0]"
    by simp
  then obtain hs where "player_hands st2 = ?h0 # hs"
    by (cases "player_hands st2") auto
  with st show ?thesis
    by (simp add: settle_keeps_flags)
qed

text \<open>
  With \<^verbatim>\<open>MAX_SPLITS\<close> or more hands flagged as split-derived, a split of a pair is
  rejected: the shoe and the round state come back unchanged.
\<close>

lemma split_rejected_by_cap:
  assumes "i < length (player_hands st)"
      and "can_split (cards (player_hands st ! i))"
      and "MAX_SPLITS \<le>
             length (filter (\<lambda>h. meta_get (meta h) ''from_split'' False) (player_hands st))"
  shows "apply_action_split sh st i = Inr (sh, st)"
  using assms by (simp add: apply_action_split_def Let_def)


text \<open>
  C1. \<^verbatim>\<open>play_round\<close> evaluated on the shoe \<^verbatim>\<open>[5, 10, 10, 9, 10, 8, 8]\<close> (drawn from the
  end: player 8, 8; dealer 10, 9; then 10 and 10 for the split) with a policy that splits
  a pair and stands otherwise: after the split at index 0 the loop moves on to index 1,
  the policy is consulted for the new hand only, and the round returns the redealt hand
  at index 0 with \<open>is_finished = False\<close>.
\<close>

theorem play_round_split_leaves_acting_hand_unfinished:
  "play_round [5, 10, 10, 9, 10, 8, 8]
     (\<lambda>cs du ctx. if ctx_can_split ctx then ''P'' else ''S'') 1 True =
   Inr \<lparr>shoe = [5],
        player_hands =
          [\<lparr>cards = [8, 10], bet = 1, is_finished = False, is_busted = False,
            is_blackjack_flag = False, is_split_ace = False, result = Some (- 1),
            meta = [(''from_split'', True)]\<rparr>,
           \<lparr>cards = [8, 10], bet = 1, is_finished = True, is_busted = False,
            is_blackjack_flag = False, is_split_ace = False, result = Some (- 1),
            meta = [(''from_split'', True)]\<rparr>],
        dealer_cards = [10, 9], initial_blackjack = False,
        logs =
          Some
           [\<lparr>step_hand_index = 0, step_cards = [8, 8], step_dealer_up = 10,
             step_action = ''P'',
             step_ctx = \<lparr>player_total = 16, player_soft = False, ctx_can_split = True,
                          can_double = True, ctx_hand_index = 0, num_hands = 1\<rparr>\<rparr>,
            \<lparr>step_hand_index = 1, step_cards = [8, 10], step_dealer_up = 10,
             step_action = ''S'',
             step_ctx = \<lparr>player_total = 18, player_soft = False, ctx_can_split = False,
                          can_double = True, ctx_hand_index = 1, num_hands = 2\<rparr>\<rparr>]\<rparr>"
  by code_simp

text \<open>
  C2. \<^verbatim>\<open>play_round\<close> evaluated on the shoe \<^verbatim>\<open>[5, 8, 8, 8, 8, 9, 10, 8, 8]\<close> with a
  policy that always answers "P": two splits succeed, the third "P" (on the pair at
  index 2, with three hands flagged as split-derived) is rejected by the cap, draws no
  card and leaves the hand unfinished; the round ends with three hands and the card 5
  still in the shoe. On that hand list \<^verbatim>\<open>apply_action_split\<close> returns the shoe and the
  round state unchanged.
\<close>

theorem play_round_third_split_rejected_without_draw:
  "play_round [5, 8, 8, 8, 8, 9, 10, 8, 8] (\<lambda>cs du ctx. ''P'') 1 False =
   Inr \<lparr>shoe = [5],
        player_hands =
          [\<lparr>cards = [8, 8], bet = 1, is_finished = False, is_busted = False,
            is_blackjack_flag = False, is_split_ace = False, result = Some (- 1),
            meta = [(''from_split'', True)]\<rparr>,
           \<lparr>cards = [8, 8], bet = 1, is_finished = False, is_busted = False,
            is_blackjack_flag = False, is_split_ace = False, result = Some (- 1),
            meta = [(''from_split'', True)]\<rparr>,
           \<lparr>cards = [8, 8], bet = 1, is_finished = False, is_busted = False,
            is_blackjack_flag = False, is_split_ace = False, result = Some (- 1),
            meta = [(''from_split'', True)]\<rparr>],
        dealer_cards = [10, 9], initial_blackjack = False, logs = None\<rparr> \<and>
   apply_action_split [5]
     \<lparr>shoe = [5],
      player_hands =
        [\<lparr>cards = [8, 8], bet = 1, is_finished = False, is_busted = False,
          is_blackjack_flag = False, is_split_ace = False, result = None,
          meta = [(''from_split'', True)]\<rparr>,
         \<lparr>cards = [8, 8], bet = 1, is_finished = False, is_busted = False,
          is_blackjack_flag = False, is_split_ace = False, result = None,
          meta = [(''from_split'', True)]\<rparr>,
         \<lparr>cards = [8, 8], bet = 1, is_finished = False, is_busted = False,
          is_blackjack_flag = False, is_split_ace = False, result = None,
          meta = [(''from_split'', True)]\<rparr>],
      dealer_cards = [10, 9], initial_blackjack = False, logs = None\<rparr> 2 =
   Inr ([5],
     \<lparr>shoe = [5],
      player_hands =
        [\<lparr>cards = [8, 8], bet = 1, is_finished = False, is_busted = False,
          is_blackjack_flag = False, is_split_ace = False, result = None,
          meta = [(''from_split'', True)]\<rparr>,
         \<lparr>cards = [8, 8], bet = 1, is_finished = False, is_busted = False,
          is_blackjack_flag = False, is_split_ace = False, result = None,
          meta = [(''from_split'', True)]\<rparr>,
         \<lparr>cards = [8, 8], bet = 1, is_finished = False, is_busted = False,
          is_blackjack_flag = False, is_split_ace = False, result = None,
          meta = [(''from_split'', True)]\<rparr>],
      dealer_cards = [10, 9], initial_blackjack = False, logs = None\<rparr>)"
  by code_simp

end
